theory Spec2Isabelle
  imports Complex_Main
begin

section \<open>Value model (types.hpp)\<close>

text \<open>
  \<^verbatim>\<open>using Element = std::variant<wchar_t, double, String, Array>\<close> and
  \<^verbatim>\<open>struct Array : std::vector<Element>\<close>. A \<^verbatim>\<open>double\<close> is idealised as a
  real number: the finite values, with exact arithmetic; rounding, infinities and NaN
  are outside this model. A \<^verbatim>\<open>wchar_t\<close> is a \<open>char\<close>, a \<^verbatim>\<open>String\<close> a \<open>string\<close>.
\<close>

datatype element = Chr char | Num real | Str string | Arr "element list"

type_synonym array = "element list"

text \<open>\<^verbatim>\<open>std::holds_alternative<double>\<close>, \<^verbatim>\<open>std::holds_alternative<Array>\<close>.\<close>

fun holds_double :: "element \<Rightarrow> bool" where
  "holds_double (Num v) = True"
| "holds_double e = False"

fun holds_Array :: "element \<Rightarrow> bool" where
  "holds_Array (Arr xs) = True"
| "holds_Array e = False"

text \<open>
  What ends a run of the interpreter other than a return:
  \<^verbatim>\<open>std::get<T>\<close> on a variant that holds another alternative throws
  \<^verbatim>\<open>std::bad_variant_access\<close>, which nothing in the program catches; an
  \<^verbatim>\<open>operator[]\<close> beyond the size of a vector and a conversion of a
  \<^verbatim>\<open>double\<close> to an integer type that cannot hold it are undefined behaviour.
\<close>

datatype fault = BadVariantAccess | UndefinedBehaviour

text \<open>\<^verbatim>\<open>std::get<Array>(e)\<close> and \<^verbatim>\<open>std::get<double>(e)\<close>.\<close>

fun get_Array :: "element \<Rightarrow> fault + array" where
  "get_Array (Arr xs) = Inr xs"
| "get_Array e = Inl BadVariantAccess"

fun get_double :: "element \<Rightarrow> fault + real" where
  "get_double (Num v) = Inr v"
| "get_double e = Inl BadVariantAccess"

text \<open>\<^verbatim>\<open>v[i]\<close> on a vector.\<close>

definition elemAt :: "'a list \<Rightarrow> nat \<Rightarrow> fault + 'a" where
  "elemAt v i = (if i < length v then Inr (v ! i) else Inl UndefinedBehaviour)"

text \<open>
  The interpreter: the stack (its head is the top), the dictionary of user-defined
  words, and the two output streams. \<^verbatim>\<open>std::wcerr\<close> is the list of the lines written
  to it. \<^verbatim>\<open>std::wcout\<close> is the list of the lines written to it too; the line
  that \<^verbatim>\<open>printArray\<close> writes for an array is recorded as the array itself.
\<close>

datatype printed = Printed array | Line string

record interp =
  stack :: "array list"
  "functions" :: "string \<rightharpoonup> string list"
  cerr :: "string list"
  cout :: "printed list"

definition error :: "string \<Rightarrow> interp \<Rightarrow> interp" where
  "error msg st = st\<lparr>cerr := cerr st @ [msg]\<rparr>"

definition push :: "array \<Rightarrow> interp \<Rightarrow> interp" where
  "push a st = st\<lparr>stack := a # stack st\<rparr>"

section \<open>Shape inference\<close>

text \<open>
  \<^verbatim>\<open>Interpreter::getShape(arr, shape)\<close> appends to \<open>shape\<close>. The loop from index 1
  computes \<open>isUniform\<close>: every further element is an Array of the size of the first.
\<close>

fun sameSize :: "nat \<Rightarrow> element \<Rightarrow> bool" where
  "sameSize n (Arr xs) = (length xs = n)"
| "sameSize n e = False"

fun getShape :: "array \<Rightarrow> nat list \<Rightarrow> nat list" where
  "getShape [] shape = shape @ [0]"
| "getShape (Arr a0 # rest) shape =
     (if list_all (sameSize (length a0)) rest
      then getShape a0 (shape @ [Suc (length rest)])
      else shape @ [Suc (length rest)])"
| "getShape (e # rest) shape = shape @ [Suc (length rest)]"

definition shapesEqual :: "nat list \<Rightarrow> nat list \<Rightarrow> bool" where
  "shapesEqual shape1 shape2 = (shape1 = shape2)"

section \<open>Element-wise arithmetic with scalar extension\<close>

text \<open>
  The leaf loop of \<^verbatim>\<open>applyOpRecursive\<close> (\<^verbatim>\<open>shape.size() == 1\<close>), over the
  indices still to visit; \<open>res\<close> is the result so far. A diagnostic is printed at the
  first leaf that fails and the empty Array is returned.
\<close>

definition pick :: "array \<Rightarrow> nat \<Rightarrow> fault + element" where
  "pick x i = (if length x = 1 then elemAt x 0 else elemAt x i)"

fun leafLoop :: "string \<Rightarrow> (real \<Rightarrow> real \<Rightarrow> real) \<Rightarrow> array \<Rightarrow> array \<Rightarrow> nat list \<Rightarrow> array
    \<Rightarrow> fault + (array \<times> string list)" where
  "leafLoop opName op x y [] res = Inr (res, [])"
| "leafLoop opName op x y (i # is) res =
     (case pick x i of Inl f \<Rightarrow> Inl f | Inr xElem \<Rightarrow>
       (case pick y i of Inl f \<Rightarrow> Inl f | Inr yElem \<Rightarrow>
         (case (xElem, yElem) of
            (Num xVal, Num yVal) \<Rightarrow>
              if opName = ''/'' \<and> yVal = 0
              then Inr ([], [''Error: Division by zero''])
              else leafLoop opName op x y is (res @ [Num (op xVal yVal)])
          | _ \<Rightarrow> Inr ([], [''Error: '' @ opName @ '' requires numeric arguments'']))))"

text \<open>
  The nested loop (\<^verbatim>\<open>shape.size() != 1\<close>): \<open>xSub\<close> is read before \<open>ySub\<close>, and an
  empty sub-result ends the whole operation with the empty Array.
\<close>

definition subAt :: "array \<Rightarrow> nat \<Rightarrow> fault + array" where
  "subAt x i =
     (if length x = 1 \<and> holds_Array (x ! 0)
      then get_Array (x ! 0)
      else (case elemAt x i of Inl f \<Rightarrow> Inl f | Inr e \<Rightarrow> get_Array e))"

fun nestLoop :: "(array \<Rightarrow> array \<Rightarrow> fault + (array \<times> string list)) \<Rightarrow> array \<Rightarrow> array
    \<Rightarrow> nat list \<Rightarrow> array \<Rightarrow> fault + (array \<times> string list)" where
  "nestLoop rec x y [] res = Inr (res, [])"
| "nestLoop rec x y (i # is) res =
     (case subAt x i of Inl f \<Rightarrow> Inl f | Inr xSub \<Rightarrow>
       (case subAt y i of Inl f \<Rightarrow> Inl f | Inr ySub \<Rightarrow>
         (case rec xSub ySub of Inl f \<Rightarrow> Inl f | Inr (subRes, msgs) \<Rightarrow>
            if subRes = [] then Inr ([], msgs)
            else nestLoop rec x y is (res @ [Arr subRes]))))"

text \<open>
  \<^verbatim>\<open>applyOpRecursive(x, y, shape)\<close>. \<open>getShape\<close> never yields the empty shape; on
  it \<^verbatim>\<open>shape[0]\<close> would be read out of range.
\<close>

fun applyOpRecursive :: "string \<Rightarrow> (real \<Rightarrow> real \<Rightarrow> real) \<Rightarrow> array \<Rightarrow> array \<Rightarrow> nat list
    \<Rightarrow> fault + (array \<times> string list)" where
  "applyOpRecursive opName op x y [] = Inl UndefinedBehaviour"
| "applyOpRecursive opName op x y [n] = leafLoop opName op x y [0..<n] []"
| "applyOpRecursive opName op x y (n # subShape) =
     nestLoop (\<lambda>xSub ySub. applyOpRecursive opName op xSub ySub subShape) x y [0..<n] []"

definition isScalar :: "array \<Rightarrow> bool" where
  "isScalar a = (length a = 1 \<and> \<not> holds_Array (a ! 0) \<and> holds_double (a ! 0))"

text \<open>\<^verbatim>\<open>Interpreter::applyBinaryOp(s, opName, op)\<close>.\<close>

definition applyBinaryOp :: "string \<Rightarrow> (real \<Rightarrow> real \<Rightarrow> real) \<Rightarrow> interp \<Rightarrow> fault + interp" where
  "applyBinaryOp opName op st =
     (case stack st of
        b # a # s \<Rightarrow>
          (let st1 = st\<lparr>stack := s\<rparr>;
               aIsScalar = isScalar a;
               bIsScalar = isScalar b;
               shapeA = getShape a [];
               shapeB = getShape b [];
               finish = (\<lambda>r. case r of
                   Inl f \<Rightarrow> Inl f
                 | Inr (result, msgs) \<Rightarrow>
                     (let st2 = st1\<lparr>cerr := cerr st1 @ msgs\<rparr>
                      in if result = [] then Inr st2 else Inr (push result st2)))
           in if aIsScalar \<and> \<not> bIsScalar then finish (applyOpRecursive opName op a b shapeB)
              else if bIsScalar \<and> \<not> aIsScalar then finish (applyOpRecursive opName op a b shapeA)
              else if shapesEqual shapeA shapeB then finish (applyOpRecursive opName op a b shapeA)
              else Inr (error (''Error: '' @ opName @ '' requires a scalar or arrays of equal shape'') st1))
      | _ \<Rightarrow> Inr (error (''Error: Insufficient stack elements for '' @ opName) st))"

section \<open>The other built-ins\<close>

text \<open>\<^verbatim>\<open>cat\<close>, \<^verbatim>\<open>.\<close>, \<^verbatim>\<open>clear\<close>, \<^verbatim>\<open>swap\<close>, \<^verbatim>\<open>dup\<close>.\<close>

definition cat :: "interp \<Rightarrow> fault + interp" where
  "cat st =
     (case stack st of
        b # a # s \<Rightarrow> Inr (push (a @ b) (st\<lparr>stack := s\<rparr>))
      | _ \<Rightarrow> Inr (error ''Error: Insufficient stack elements for cat'' st))"

definition dot :: "interp \<Rightarrow> fault + interp" where
  "dot st =
     (case stack st of
        [] \<Rightarrow> Inr (error ''Error: Stack empty for .'' st)
      | top0 # s \<Rightarrow> Inr (st\<lparr>stack := s, cout := cout st @ [Printed top0]\<rparr>))"

definition clear :: "interp \<Rightarrow> fault + interp" where
  "clear st = Inr (st\<lparr>stack := []\<rparr>)"

definition swap :: "interp \<Rightarrow> fault + interp" where
  "swap st =
     (case stack st of
        top0 # second # s \<Rightarrow> Inr (push second (push top0 (st\<lparr>stack := s\<rparr>)))
      | _ \<Rightarrow> Inr (error ''Error: Insufficient stack elements for swap'' st))"

definition dup :: "interp \<Rightarrow> fault + interp" where
  "dup st =
     (case stack st of
        [] \<Rightarrow> Inr (error ''Error: Stack empty for dup'' st)
      | top0 # s \<Rightarrow> Inr (push top0 st))"

subsection \<open>range\<close>

text \<open>
  \<^verbatim>\<open>static_cast<int>(val)\<close> truncates towards zero and is undefined when the
  truncated value is not an \<^verbatim>\<open>int\<close> (32 bits).
\<close>

definition INT_MAX :: int where
  "INT_MAX = 2147483647"

definition INT_MIN :: int where
  "INT_MIN = - 2147483648"

definition truncate :: "real \<Rightarrow> int" where
  "truncate val = (if 0 \<le> val then \<lfloor>val\<rfloor> else \<lceil>val\<rceil>)"

definition static_cast_int :: "real \<Rightarrow> fault + int" where
  "static_cast_int val =
     (if INT_MIN \<le> truncate val \<and> truncate val \<le> INT_MAX then Inr (truncate val)
      else Inl UndefinedBehaviour)"

definition range_builtin :: "interp \<Rightarrow> fault + interp" where
  "range_builtin st =
     (case stack st of
        [] \<Rightarrow> Inr (error ''Error: Stack empty for range'' st)
      | top0 # s \<Rightarrow>
          (let st1 = st\<lparr>stack := s\<rparr>
           in if length top0 \<noteq> 1 \<or> \<not> holds_double (top0 ! 0)
              then Inr (error ''Error: range requires a scalar numeric argument'' st1)
              else (case get_double (top0 ! 0) of Inl f \<Rightarrow> Inl f | Inr val \<Rightarrow>
                if val < 0 \<or> real_of_int \<lfloor>val\<rfloor> \<noteq> val
                then Inr (error ''Error: range requires a non-negative integer'' st1)
                else (case static_cast_int val of Inl f \<Rightarrow> Inl f | Inr n \<Rightarrow>
                  Inr (push (map (\<lambda>i. Num (real i)) [0..<nat n]) st1)))))"

subsection \<open>reshape\<close>

text \<open>
  \<^verbatim>\<open>size_t\<close> has 64 bits: \<^verbatim>\<open>static_cast<size_t>(val)\<close> is undefined from
  \<open>2 ^ 64\<close> on, and \<^verbatim>\<open>total_size *= dim\<close> wraps around. The size of a vector
  is a \<open>nat\<close>.
\<close>

definition SIZE_MAX :: nat where
  "SIZE_MAX = 2 ^ 64 - 1"

definition static_cast_size_t :: "real \<Rightarrow> fault + nat" where
  "static_cast_size_t val =
     (if 0 \<le> truncate val \<and> nat (truncate val) \<le> SIZE_MAX then Inr (nat (truncate val))
      else Inl UndefinedBehaviour)"

text \<open>
  The loop over the shape array: \<open>Inr (Inl msg)\<close> is the diagnostic of the element that
  fails, \<open>Inr (Inr (dims, total_size))\<close> the outcome of a shape that passes.
\<close>

fun shapeLoop :: "array \<Rightarrow> nat list \<Rightarrow> nat \<Rightarrow> fault + (string + nat list \<times> nat)" where
  "shapeLoop [] dims total_size = Inr (Inr (dims, total_size))"
| "shapeLoop (Num val # elems) dims total_size =
     (if val \<le> 0 \<or> real_of_int \<lfloor>val\<rfloor> \<noteq> val
      then Inr (Inl ''Error: reshape dimensions must be positive integers'')
      else (case static_cast_size_t val of Inl f \<Rightarrow> Inl f | Inr dim0 \<Rightarrow>
        shapeLoop elems (dims @ [dim0]) ((total_size * dim0) mod (SIZE_MAX + 1))))"
| "shapeLoop (elem # elems) dims total_size =
     Inr (Inl ''Error: reshape shape must contain numeric values'')"

text \<open>
  \<^verbatim>\<open>buildArray(dimIdx, dims, dataIdx)\<close>; \<open>dataIdx\<close> is passed by reference, so the
  model returns it with the result. The two loops run \<^verbatim>\<open>dims[dimIdx]\<close> times.
\<close>

fun copyLoop :: "array \<Rightarrow> nat \<Rightarrow> array \<Rightarrow> nat \<Rightarrow> array \<times> nat" where
  "copyLoop data 0 result dataIdx = (result, dataIdx)"
| "copyLoop data (Suc k) result dataIdx =
     (if dataIdx < length data
      then copyLoop data k (result @ [data ! dataIdx]) (dataIdx + 1)
      else copyLoop data k result dataIdx)"

fun buildLoop :: "(nat \<Rightarrow> fault + array \<times> nat) \<Rightarrow> nat \<Rightarrow> array \<Rightarrow> nat \<Rightarrow> fault + array \<times> nat" where
  "buildLoop rec 0 result dataIdx = Inr (result, dataIdx)"
| "buildLoop rec (Suc k) result dataIdx =
     (case rec dataIdx of Inl f \<Rightarrow> Inl f | Inr (subArr, dataIdx') \<Rightarrow>
        buildLoop rec k (result @ [Arr subArr]) dataIdx')"

function buildArray :: "array \<Rightarrow> nat \<Rightarrow> nat list \<Rightarrow> nat \<Rightarrow> fault + array \<times> nat" where
  "buildArray data dimIdx dims dataIdx =
     (if length dims \<le> dimIdx then Inl UndefinedBehaviour
      else if dimIdx = length dims - 1 then Inr (copyLoop data (dims ! dimIdx) [] dataIdx)
      else buildLoop (\<lambda>idx. buildArray data (dimIdx + 1) dims idx) (dims ! dimIdx) [] dataIdx)"
  by pat_completeness auto
termination
  by (relation "measure (\<lambda>(data, dimIdx, dims, dataIdx). length dims - dimIdx)") auto

definition reshape :: "interp \<Rightarrow> fault + interp" where
  "reshape st =
     (case stack st of
        shape # data # s \<Rightarrow>
          (let st1 = st\<lparr>stack := s\<rparr>
           in if shape = []
              then Inr (error ''Error: reshape requires a non-empty shape array'' st1)
              else (case shapeLoop shape [] 1 of
                  Inl f \<Rightarrow> Inl f
                | Inr (Inl msg) \<Rightarrow> Inr (error msg st1)
                | Inr (Inr (dims, total_size)) \<Rightarrow>
                    if length data \<noteq> total_size
                    then Inr (error ''Error: Data size does not match shape dimensions'' st1)
                    else (case buildArray data 0 dims 0 of
                        Inl f \<Rightarrow> Inl f
                      | Inr (result, dataIdx) \<Rightarrow> Inr (push result st1))))
      | _ \<Rightarrow> Inr (error ''Error: Insufficient stack elements for reshape'' st))"

subsection \<open>dim\<close>

text \<open>
  \<^verbatim>\<open>getDims(current, dims)\<close> appends to \<open>dims\<close>, and on a non-uniform level it
  prints the diagnostic and pushes \<open>result\<close>, which is still empty then, on the stack
  it has captured. Its loop fails at the first element after the first that is not an
  Array of the size of the first; it returns at once when the first is not an Array.
\<close>

fun getDims :: "array \<Rightarrow> nat list \<Rightarrow> interp \<Rightarrow> nat list \<times> interp" where
  "getDims [] dims st = (dims @ [0], st)"
| "getDims (Arr a0 # rest) dims st =
     (if list_all (sameSize (length a0)) rest
      then getDims a0 (dims @ [Suc (length rest)]) st
      else (dims @ [Suc (length rest)], push [] (error ''Error: Non-uniform array for dim'' st)))"
| "getDims (e # rest) dims st = (dims @ [Suc (length rest)], st)"

definition dim_builtin :: "interp \<Rightarrow> fault + interp" where
  "dim_builtin st =
     (case stack st of
        [] \<Rightarrow> Inr (error ''Error: Stack empty for dim'' st)
      | arr # s \<Rightarrow>
          (let st1 = st\<lparr>stack := s\<rparr>; result = []
           in if length arr = 1 \<and> \<not> holds_Array (arr ! 0)
              then Inr (push result st1)
              else (case getDims arr [] st1 of (dims, st2) \<Rightarrow>
                if dims = [] \<and> result \<noteq> [] then Inr st2
                else Inr (push (result @ map (\<lambda>d. Num (real d)) dims) st2))))"

subsection \<open>matmul\<close>

text \<open>The two validation loops: the diagnostic of the first row or element that fails.\<close>

fun checkRows :: "array \<Rightarrow> string option" where
  "checkRows [] = None"
| "checkRows (Arr row # rows) =
     (if list_all holds_double row then checkRows rows
      else Some ''Error: matmul requires numeric elements'')"
| "checkRows (e # rows) = Some ''Error: matmul requires 2D numeric arrays''"

text \<open>\<^verbatim>\<open>std::get<double>(std::get<Array>(a[i])[k])\<close>.\<close>

definition cell :: "array \<Rightarrow> nat \<Rightarrow> nat \<Rightarrow> fault + real" where
  "cell a i k =
     (case elemAt a i of Inl f \<Rightarrow> Inl f | Inr r \<Rightarrow>
       (case get_Array r of Inl f \<Rightarrow> Inl f | Inr row \<Rightarrow>
         (case elemAt row k of Inl f \<Rightarrow> Inl f | Inr e \<Rightarrow> get_double e)))"

text \<open>The three loops, each over the indices still to visit.\<close>

fun sumLoop :: "array \<Rightarrow> array \<Rightarrow> nat \<Rightarrow> nat \<Rightarrow> nat list \<Rightarrow> real \<Rightarrow> fault + real" where
  "sumLoop a b i j [] acc = Inr acc"
| "sumLoop a b i j (k # ks) acc =
     (case cell a i k of Inl f \<Rightarrow> Inl f | Inr a_val \<Rightarrow>
       (case cell b k j of Inl f \<Rightarrow> Inl f | Inr b_val \<Rightarrow>
          sumLoop a b i j ks (acc + a_val * b_val)))"

fun rowLoop :: "array \<Rightarrow> array \<Rightarrow> nat \<Rightarrow> nat \<Rightarrow> nat list \<Rightarrow> array \<Rightarrow> fault + array" where
  "rowLoop a b n i [] row = Inr row"
| "rowLoop a b n i (j # js) row =
     (case sumLoop a b i j [0..<n] 0 of Inl f \<Rightarrow> Inl f | Inr sum0 \<Rightarrow>
        rowLoop a b n i js (row @ [Num sum0]))"

fun matLoop :: "array \<Rightarrow> array \<Rightarrow> nat \<Rightarrow> nat \<Rightarrow> nat list \<Rightarrow> array \<Rightarrow> fault + array" where
  "matLoop a b n p [] result = Inr result"
| "matLoop a b n p (i # is) result =
     (case rowLoop a b n i [0..<p] [] of Inl f \<Rightarrow> Inl f | Inr row \<Rightarrow>
        matLoop a b n p is (result @ [Arr row]))"

definition matmul :: "interp \<Rightarrow> fault + interp" where
  "matmul st =
     (case stack st of
        b # a # s \<Rightarrow>
          (let st1 = st\<lparr>stack := s\<rparr>;
               shapeA = getShape a [];
               shapeB = getShape b []
           in if length shapeA \<noteq> 2 \<or> length shapeB \<noteq> 2
              then Inr (error ''Error: matmul requires 2D arrays'' st1)
              else (let m = shapeA ! 0; n = shapeA ! 1; n_b = shapeB ! 0; p = shapeB ! 1
                in if n \<noteq> n_b
                   then Inr (error ''Error: Incompatible dimensions for matmul'' st1)
                   else (case checkRows a of Some msg \<Rightarrow> Inr (error msg st1) | None \<Rightarrow>
                     (case checkRows b of Some msg \<Rightarrow> Inr (error msg st1) | None \<Rightarrow>
                       (case matLoop a b n p [0..<m] [] of Inl f \<Rightarrow> Inl f | Inr result \<Rightarrow>
                          Inr (push result st1))))))
      | _ \<Rightarrow> Inr (error ''Error: Insufficient stack elements for matmul'' st))"

subsection \<open>The table of built-ins\<close>

text \<open>
  \<^verbatim>\<open>Interpreter::initBuiltIns\<close>. \<^verbatim>\<open>std::pow\<close> belongs to the C++ library: it is
  the parameter \<open>pow\<close>.
\<close>

definition builtInTable :: "(real \<Rightarrow> real \<Rightarrow> real) \<Rightarrow> (string \<times> (interp \<Rightarrow> fault + interp)) list" where
  "builtInTable pow =
     [(''+'', applyBinaryOp ''+'' (\<lambda>x y. x + y)),
      (''-'', applyBinaryOp ''-'' (\<lambda>x y. x - y)),
      (''*'', applyBinaryOp ''*'' (\<lambda>x y. x * y)),
      (''/'', applyBinaryOp ''/'' (\<lambda>x y. x / y)),
      (''^'', applyBinaryOp ''^'' (\<lambda>x y. pow x y)),
      (''cat'', cat),
      (''.'', dot),
      (''clear'', clear),
      (''swap'', swap),
      (''dup'', dup),
      (''range'', range_builtin),
      (''reshape'', reshape),
      (''dim'', dim_builtin),
      (''matmul'', matmul)]"

definition builtIns :: "(real \<Rightarrow> real \<Rightarrow> real) \<Rightarrow> string \<Rightarrow> (interp \<Rightarrow> fault + interp) option" where
  "builtIns pow = map_of (builtInTable pow)"

section \<open>The evaluator\<close>

text \<open>
  \<^verbatim>\<open>Interpreter::isFunctionName\<close>. \<^verbatim>\<open>std::iswalnum\<close> is given on the ASCII
  range, where it holds of the digits and the letters; beyond 127 the third disjunct
  decides.
\<close>

definition iswalnum :: "char \<Rightarrow> bool" where
  "iswalnum c =
     (let n = (of_char c :: nat)
      in (48 \<le> n \<and> n \<le> 57) \<or> (65 \<le> n \<and> n \<le> 90) \<or> (97 \<le> n \<and> n \<le> 122))"

definition isFunctionName :: "string \<Rightarrow> bool" where
  "isFunctionName token =
     (if token = [] \<or> token = '':end'' \<or> token = '':dump'' then False
      else list_all (\<lambda>c. iswalnum c \<or> c = CHR ''_'' \<or> (of_char c :: nat) > 127) token)"

text \<open>
  \<^verbatim>\<open>:dump\<close>: the first loop moves the stack into \<open>temp\<close> and prints each array, the
  second moves \<open>temp\<close> back.
\<close>

fun dumpLoop :: "array list \<Rightarrow> array list \<Rightarrow> printed list \<Rightarrow> array list \<times> printed list" where
  "dumpLoop [] temp out = (temp, out)"
| "dumpLoop (a # s) temp out = dumpLoop s (a # temp) (out @ [Printed a])"

fun restoreLoop :: "array list \<Rightarrow> array list \<Rightarrow> array list" where
  "restoreLoop [] s = s"
| "restoreLoop (a # temp) s = restoreLoop temp (a # s)"

definition dump :: "interp \<Rightarrow> interp" where
  "dump st =
     (let out = cout st @ [Line ''Stack:'']
      in if stack st = [] then st\<lparr>cout := out @ [Line ''(empty)'']\<rparr>
         else (case dumpLoop (stack st) [] out of (temp, out') \<Rightarrow>
           st\<lparr>stack := restoreLoop temp [], cout := out'\<rparr>))"

text \<open>
  \<^verbatim>\<open>Interpreter::evaluate(tokens, isFunctionBody)\<close>: the loop over the tokens still
  to read, with the locals \<open>defining\<close>, \<open>funcName\<close> and \<open>funcBody\<close>. The parser of
  literals \<^verbatim>\<open>parseArray\<close> is the parameter \<open>parseArray\<close>. A word may call itself
  for ever: \<open>depth\<close> bounds the nesting of calls, and \<open>None\<close> is a run that needs
  more.
\<close>

fun evalLoop :: "(string \<Rightarrow> array) \<Rightarrow> (real \<Rightarrow> real \<Rightarrow> real) \<Rightarrow> nat \<Rightarrow> bool \<Rightarrow> string list
    \<Rightarrow> bool \<Rightarrow> string \<Rightarrow> string list \<Rightarrow> interp \<Rightarrow> (fault + interp) option" where
  "evalLoop parseArray pow depth isFunctionBody [] defining funcName funcBody st = Some (Inr st)"
| "evalLoop parseArray pow depth isFunctionBody (token # tokens) defining funcName funcBody st =
     (if token = '':dump''
      then evalLoop parseArray pow depth isFunctionBody tokens defining funcName funcBody (dump st)
      else if \<not> isFunctionBody \<and> \<not> defining \<and> length token > 1 \<and> hd token = CHR '':''
      then (if tokens \<noteq> [] \<and> isFunctionName (tl token)
            then evalLoop parseArray pow depth isFunctionBody tokens True (tl token) funcBody st
            else evalLoop parseArray pow depth isFunctionBody tokens defining (tl token) funcBody
                   (error ''Error: Invalid function definition'' st))
      else if defining
      then (if token = '':end''
            then evalLoop parseArray pow depth isFunctionBody tokens False funcName []
                   (st\<lparr>functions := (functions st)(funcName \<mapsto> funcBody)\<rparr>)
            else evalLoop parseArray pow depth isFunctionBody tokens defining funcName
                   (funcBody @ [token]) st)
      else (case functions st token of
          Some body \<Rightarrow>
            (case depth of
               0 \<Rightarrow> None
             | Suc d \<Rightarrow>
                 (case evalLoop parseArray pow d True body False [] [] st of
                    None \<Rightarrow> None
                  | Some (Inl f) \<Rightarrow> Some (Inl f)
                  | Some (Inr st') \<Rightarrow>
                      evalLoop parseArray pow (Suc d) isFunctionBody tokens defining funcName funcBody st'))
        | None \<Rightarrow>
            (case builtIns pow token of
               Some builtIn \<Rightarrow>
                 (case builtIn st of
                    Inl f \<Rightarrow> Some (Inl f)
                  | Inr st' \<Rightarrow>
                      evalLoop parseArray pow depth isFunctionBody tokens defining funcName funcBody st')
             | None \<Rightarrow>
                 evalLoop parseArray pow depth isFunctionBody tokens defining funcName funcBody
                   (push (parseArray token) st))))"

definition evaluate :: "(string \<Rightarrow> array) \<Rightarrow> (real \<Rightarrow> real \<Rightarrow> real) \<Rightarrow> nat \<Rightarrow> string list \<Rightarrow> bool
    \<Rightarrow> interp \<Rightarrow> (fault + interp) option" where
  "evaluate parseArray pow depth tokens isFunctionBody st =
     evalLoop parseArray pow depth isFunctionBody tokens False [] [] st"

section \<open>Notions of the specification\<close>

text \<open>
  The nesting that \<open>dim\<close> finds inconsistent: at a level reached through first
  elements, the first element is an Array and a later element is not an Array of its
  size.
\<close>

fun nonUniform :: "array \<Rightarrow> bool" where
  "nonUniform [] = False"
| "nonUniform (Arr a0 # rest) =
     (if list_all (sameSize (length a0)) rest then nonUniform a0 else True)"
| "nonUniform (e # rest) = False"

text \<open>
  The regular nested arrays of a shape, and the leaves of two of them that correspond, in
  row-major order. \<open>numOf\<close> and \<open>arrOf\<close> read a Number and an Array.
\<close>

fun numOf :: "element \<Rightarrow> real" where
  "numOf (Num v) = v"
| "numOf e = 0"

fun arrOf :: "element \<Rightarrow> array" where
  "arrOf (Arr xs) = xs"
| "arrOf e = []"

fun conforms :: "nat list \<Rightarrow> array \<Rightarrow> bool" where
  "conforms [] x = False"
| "conforms [n] x = (length x = n)"
| "conforms (n # sh) x = (length x = n \<and> list_all (\<lambda>e. holds_Array e \<and> conforms sh (arrOf e)) x)"

fun leafPairs :: "nat list \<Rightarrow> array \<Rightarrow> array \<Rightarrow> (element \<times> element) list" where
  "leafPairs [] x y = []"
| "leafPairs [n] x y = zip x y"
| "leafPairs (n # sh) x y =
     concat (map (\<lambda>(xe, ye). leafPairs sh (arrOf xe) (arrOf ye)) (zip x y))"

text \<open>
  A pair of leaves on which the operation fails: one of them is not a Number, or the
  operation is the division and the right one is zero.
\<close>

definition badLeaf :: "string \<Rightarrow> element \<times> element \<Rightarrow> bool" where
  "badLeaf opName p =
     (case p of (xe, ye) \<Rightarrow>
        \<not> holds_double xe \<or> \<not> holds_double ye \<or> (opName = ''/'' \<and> ye = Num 0))"

text \<open>The leaves of a nested array, \<open>k\<close> levels down, from left to right.\<close>

fun flatten :: "nat \<Rightarrow> array \<Rightarrow> array" where
  "flatten 0 x = x"
| "flatten (Suc k) x = concat (map (\<lambda>e. flatten k (arrOf e)) x)"

text \<open>
  The corresponding leaves of two operands of a binary operation: the scalar against
  every leaf of a regular array, of any rank, or the leaves of two regular arrays of one
  inferred shape.
\<close>

definition correspondingLeaves :: "array \<Rightarrow> array \<Rightarrow> (element \<times> element) list option" where
  "correspondingLeaves a b =
     (if isScalar a \<and> \<not> isScalar b
      then (if conforms (getShape b []) b
            then Some (map (\<lambda>ye. (a ! 0, ye)) (flatten (length (getShape b []) - 1) b))
            else None)
      else if isScalar b \<and> \<not> isScalar a
      then (if conforms (getShape a []) a
            then Some (map (\<lambda>xe. (xe, b ! 0)) (flatten (length (getShape a []) - 1) a))
            else None)
      else if getShape a [] = getShape b [] \<and> conforms (getShape a []) a \<and> conforms (getShape a []) b
      then Some (leafPairs (getShape a []) a b)
      else None)"

text \<open>The element-wise result of the specification on two regular arrays of one shape.\<close>

fun elementwise :: "(real \<Rightarrow> real \<Rightarrow> real) \<Rightarrow> nat list \<Rightarrow> array \<Rightarrow> array \<Rightarrow> array" where
  "elementwise op [] x y = []"
| "elementwise op [n] x y = map (\<lambda>(xe, ye). Num (op (numOf xe) (numOf ye))) (zip x y)"
| "elementwise op (n # sh) x y =
     map (\<lambda>(xe, ye). Arr (elementwise op sh (arrOf xe) (arrOf ye))) (zip x y)"

text \<open>
  The result of the specification for a binary operation: the scalar is replicated over
  every leaf position of the other operand, and two arrays of one shape are combined
  leaf by leaf, the left operand on the left.
\<close>

fun mapLeaves :: "(element \<Rightarrow> element) \<Rightarrow> nat list \<Rightarrow> array \<Rightarrow> array" where
  "mapLeaves f [] x = []"
| "mapLeaves f [n] x = map f x"
| "mapLeaves f (n # sh) x = map (\<lambda>e. Arr (mapLeaves f sh (arrOf e))) x"

definition broadcast :: "(real \<Rightarrow> real \<Rightarrow> real) \<Rightarrow> array \<Rightarrow> array \<Rightarrow> array" where
  "broadcast op a b =
     (if isScalar a \<and> \<not> isScalar b
      then mapLeaves (\<lambda>ye. Num (op (numOf (a ! 0)) (numOf ye))) (getShape b []) b
      else if isScalar b \<and> \<not> isScalar a
      then mapLeaves (\<lambda>xe. Num (op (numOf xe) (numOf (b ! 0)))) (getShape a []) a
      else elementwise op (getShape a []) a b)"

text \<open>
  The matrix product of the specification: the entry at row \<open>i\<close> and column \<open>j\<close> is the
  sum over \<open>k\<close> of \<open>a[i][k] * b[k][j]\<close>, for \<open>k\<close> from 0 as the loop adds them.
  \<open>numericRows\<close> holds of an array whose elements are Arrays of Numbers.
\<close>

definition entry :: "array \<Rightarrow> nat \<Rightarrow> nat \<Rightarrow> real" where
  "entry a i k = numOf (arrOf (a ! i) ! k)"

definition matrixProduct :: "array \<Rightarrow> array \<Rightarrow> nat \<Rightarrow> nat \<Rightarrow> nat \<Rightarrow> array" where
  "matrixProduct a b m n p =
     map (\<lambda>i. Arr (map (\<lambda>j. Num (\<Sum>k\<leftarrow>[0..<n]. entry a i k * entry b k j)) [0..<p])) [0..<m]"

definition numericRows :: "array \<Rightarrow> bool" where
  "numericRows a = list_all (\<lambda>r. holds_Array r \<and> list_all holds_double (arrOf r)) a"

text \<open>
  A shape element that is a positive-integer Number, the dimension it stands for, and
  the nested array of the specification for \<open>reshape\<close>: row-major, the last dimension
  innermost, the data consumed from left to right.
\<close>

fun posInt :: "element \<Rightarrow> bool" where
  "posInt (Num v) = (0 < v \<and> real_of_int \<lfloor>v\<rfloor> = v)"
| "posInt e = False"

definition dimOf :: "element \<Rightarrow> nat" where
  "dimOf e = nat \<lfloor>numOf e\<rfloor>"

fun rowMajor :: "nat list \<Rightarrow> array \<Rightarrow> array" where
  "rowMajor [] data = []"
| "rowMajor [d] data = take d data"
| "rowMajor (d # ds) data =
     map (\<lambda>i. Arr (rowMajor ds (drop (i * prod_list ds) data))) [0..<d]"

text \<open>
  One run of the evaluator after another: the second starts in the state that the first
  returns; a fault of the first, or its want of depth, is that of both.
\<close>

definition thenRun :: "(fault + interp) option \<Rightarrow> (interp \<Rightarrow> (fault + interp) option)
    \<Rightarrow> (fault + interp) option" where
  "thenRun r k = (case r of None \<Rightarrow> None | Some (Inl f) \<Rightarrow> Some (Inl f) | Some (Inr st) \<Rightarrow> k st)"

section \<open>Properties\<close>

subsection \<open>The table\<close>

lemma builtIns_simps:
  "builtIns pow ''+'' = Some (applyBinaryOp ''+'' (\<lambda>x y. x + y))"
  "builtIns pow ''-'' = Some (applyBinaryOp ''-'' (\<lambda>x y. x - y))"
  "builtIns pow ''*'' = Some (applyBinaryOp ''*'' (\<lambda>x y. x * y))"
  "builtIns pow ''/'' = Some (applyBinaryOp ''/'' (\<lambda>x y. x / y))"
  "builtIns pow ''^'' = Some (applyBinaryOp ''^'' (\<lambda>x y. pow x y))"
  "builtIns pow ''cat'' = Some cat"
  "builtIns pow ''.'' = Some dot"
  "builtIns pow ''clear'' = Some clear"
  "builtIns pow ''swap'' = Some swap"
  "builtIns pow ''dup'' = Some dup"
  "builtIns pow ''range'' = Some range_builtin"
  "builtIns pow ''reshape'' = Some reshape"
  "builtIns pow ''dim'' = Some dim_builtin"
  "builtIns pow ''matmul'' = Some matmul"
  by (simp_all add: builtIns_def builtInTable_def)

subsection \<open>Stack underflow\<close>

lemma short_stack: "length (s :: 'a list) < 2 \<Longrightarrow> s = [] \<or> (\<exists>x. s = [x])"
  by (cases s; cases "tl s") auto

lemma applyBinaryOp_underflow:
  "length (stack st) < 2 \<Longrightarrow>
   applyBinaryOp opName op st = Inr (st\<lparr>cerr := cerr st @ [''Error: Insufficient stack elements for '' @ opName]\<rparr>)"
  by (drule short_stack, elim disjE exE) (simp_all add: applyBinaryOp_def error_def)

lemma cat_underflow:
  "length (stack st) < 2 \<Longrightarrow>
   cat st = Inr (st\<lparr>cerr := cerr st @ [''Error: Insufficient stack elements for cat'']\<rparr>)"
  by (drule short_stack, elim disjE exE) (simp_all add: cat_def error_def)

lemma swap_underflow:
  "length (stack st) < 2 \<Longrightarrow>
   swap st = Inr (st\<lparr>cerr := cerr st @ [''Error: Insufficient stack elements for swap'']\<rparr>)"
  by (drule short_stack, elim disjE exE) (simp_all add: swap_def error_def)

lemma matmul_underflow:
  "length (stack st) < 2 \<Longrightarrow>
   matmul st = Inr (st\<lparr>cerr := cerr st @ [''Error: Insufficient stack elements for matmul'']\<rparr>)"
  by (drule short_stack, elim disjE exE) (simp_all add: matmul_def error_def)

lemma reshape_underflow:
  "length (stack st) < 2 \<Longrightarrow>
   reshape st = Inr (st\<lparr>cerr := cerr st @ [''Error: Insufficient stack elements for reshape'']\<rparr>)"
  by (drule short_stack, elim disjE exE) (simp_all add: reshape_def error_def)

lemma dot_underflow:
  "stack st = [] \<Longrightarrow> dot st = Inr (st\<lparr>cerr := cerr st @ [''Error: Stack empty for .'']\<rparr>)"
  by (simp add: dot_def error_def)

lemma dup_underflow:
  "stack st = [] \<Longrightarrow> dup st = Inr (st\<lparr>cerr := cerr st @ [''Error: Stack empty for dup'']\<rparr>)"
  by (simp add: dup_def error_def)

lemma range_underflow:
  "stack st = [] \<Longrightarrow>
   range_builtin st = Inr (st\<lparr>cerr := cerr st @ [''Error: Stack empty for range'']\<rparr>)"
  by (simp add: range_builtin_def error_def)

lemma dim_underflow:
  "stack st = [] \<Longrightarrow>
   dim_builtin st = Inr (st\<lparr>cerr := cerr st @ [''Error: Stack empty for dim'']\<rparr>)"
  by (simp add: dim_builtin_def error_def)

lemma underflowI:
  "builtIns pow name = Some f \<Longrightarrow> f st = Inr (st\<lparr>cerr := cerr st @ [line]\<rparr>) \<Longrightarrow>
   \<exists>builtIn line. builtIns pow name = Some builtIn \<and> builtIn st = Inr (st\<lparr>cerr := cerr st @ [line]\<rparr>)"
  by blast

text \<open>
  C10. A built-in that finds fewer arrays on the stack than it needs (fewer than two for
  \<open>+ - * / ^ cat swap matmul reshape\<close>, none for \<open>. dup range dim\<close>) writes one
  diagnostic line and changes nothing else: the stack, the dictionary and the standard
  output are those of before.
\<close>

theorem underflow_leaves_stack:
  "(name \<in> {''+'', ''-'', ''*'', ''/'', ''^'', ''cat'', ''swap'', ''matmul'', ''reshape''}
      \<and> length (stack st) < 2)
   \<or> (name \<in> {''.'', ''dup'', ''range'', ''dim''} \<and> stack st = [])
   \<Longrightarrow> \<exists>builtIn line. builtIns pow name = Some builtIn
         \<and> builtIn st = Inr (st\<lparr>cerr := cerr st @ [line]\<rparr>)"
  (is "_ \<Longrightarrow> ?P name")
proof (erule disjE)
  assume "name \<in> {''+'', ''-'', ''*'', ''/'', ''^'', ''cat'', ''swap'', ''matmul'', ''reshape''}
      \<and> length (stack st) < 2"
  then have n: "name \<in> {''+'', ''-'', ''*'', ''/'', ''^'', ''cat'', ''swap'', ''matmul'', ''reshape''}"
    and two: "length (stack st) < 2"
    by (rule conjunct1, rule conjunct2)
  note u = applyBinaryOp_underflow [OF two] cat_underflow [OF two]
        swap_underflow [OF two] matmul_underflow [OF two] reshape_underflow [OF two]
  have "?P ''+''" "?P ''-''" "?P ''*''" "?P ''/''" "?P ''^''" "?P ''cat''" "?P ''swap''"
    "?P ''matmul''" "?P ''reshape''"
    by (rule underflowI, rule builtIns_simps, rule u)+
  with n show ?thesis
    by (elim insertE emptyE) (erule ssubst, assumption)+
next
  assume "name \<in> {''.'', ''dup'', ''range'', ''dim''} \<and> stack st = []"
  then have n: "name \<in> {''.'', ''dup'', ''range'', ''dim''}" and none: "stack st = []"
    by (rule conjunct1, rule conjunct2)
  note u = dot_underflow [OF none] dup_underflow [OF none]
        range_underflow [OF none] dim_underflow [OF none]
  have "?P ''.''" "?P ''dup''" "?P ''range''" "?P ''dim''"
    by (rule underflowI, rule builtIns_simps, rule u)+
  with n show ?thesis
    by (elim insertE emptyE) (erule ssubst, assumption)+
qed

theorem underflow_leaves_stack_witness:
  "\<exists>builtIn line. builtIns (powr) ''swap'' = Some builtIn
     \<and> builtIn \<lparr>stack = [[Num 1]], functions = Map.empty, cerr = [], cout = []\<rparr>
       = Inr \<lparr>stack = [[Num 1]], functions = Map.empty, cerr = [line], cout = []\<rparr>"
  using underflow_leaves_stack
    [of "''swap''" "\<lparr>stack = [[Num 1]], functions = Map.empty, cerr = [], cout = []\<rparr>" "(powr)"]
  by simp

subsection \<open>range\<close>

lemma truncate_of_nat: "truncate (real n) = int n"
  by (simp add: truncate_def)

text \<open>
  The claim C8 as written promises the array \<open>[0, \<dots>, n - 1]\<close> for every non-negative
  integer \<open>n\<close>. At \<open>2 ^ 31\<close> the conversion to \<^verbatim>\<open>int\<close> is undefined and
  nothing is promised.
\<close>

theorem range_beyond_int_counterexample:
  "range_builtin \<lparr>stack = [[Num 2147483648]], functions = Map.empty, cerr = [], cout = []\<rparr>
     = Inl UndefinedBehaviour"
  by (simp add: range_builtin_def static_cast_int_def truncate_def INT_MAX_def INT_MIN_def)

text \<open>
  C8, amended. \<open>range\<close> pops its argument. For a scalar non-negative integer \<open>n\<close> up to
  \<open>INT_MAX\<close> it pushes \<open>[0, \<dots>, n - 1]\<close>. For a negative or non-integer scalar it
  writes one diagnostic line and pushes nothing: the stack is the one from before the
  argument was pushed, one shorter than at the call.
\<close>

theorem range_spec:
  "stack st = [Num v] # s \<Longrightarrow>
   (v = real n \<and> int n \<le> INT_MAX \<longrightarrow>
      range_builtin st = Inr (st\<lparr>stack := map (\<lambda>i. Num (real i)) [0..<n] # s\<rparr>))
   \<and> (v < 0 \<or> real_of_int \<lfloor>v\<rfloor> \<noteq> v \<longrightarrow>
      range_builtin st
        = Inr (st\<lparr>stack := s, cerr := cerr st @ [''Error: range requires a non-negative integer'']\<rparr>))"
  by (auto simp: range_builtin_def static_cast_int_def truncate_of_nat INT_MIN_def push_def error_def)

theorem range_spec_witness:
  "range_builtin \<lparr>stack = [[Num 5], [Num 9]], functions = Map.empty, cerr = [], cout = []\<rparr>
     = Inr \<lparr>stack = [[Num 0, Num 1, Num 2, Num 3, Num 4], [Num 9]], functions = Map.empty, cerr = [], cout = []\<rparr>
   \<and> range_builtin \<lparr>stack = [[Num 0], [Num 9]], functions = Map.empty, cerr = [], cout = []\<rparr>
     = Inr \<lparr>stack = [[], [Num 9]], functions = Map.empty, cerr = [], cout = []\<rparr>
   \<and> range_builtin \<lparr>stack = [[Num (- 1)], [Num 9]], functions = Map.empty, cerr = [], cout = []\<rparr>
     = Inr \<lparr>stack = [[Num 9]], functions = Map.empty,
         cerr = [''Error: range requires a non-negative integer''], cout = []\<rparr>
   \<and> range_builtin \<lparr>stack = [[Num 2.5], [Num 9]], functions = Map.empty, cerr = [], cout = []\<rparr>
     = Inr \<lparr>stack = [[Num 9]], functions = Map.empty,
         cerr = [''Error: range requires a non-negative integer''], cout = []\<rparr>"
  using range_spec [of "\<lparr>stack = [[Num 5], [Num 9]], functions = Map.empty, cerr = [], cout = []\<rparr>" 5 "[[Num 9]]" 5]
    range_spec [of "\<lparr>stack = [[Num 0], [Num 9]], functions = Map.empty, cerr = [], cout = []\<rparr>" 0 "[[Num 9]]" 0]
    range_spec [of "\<lparr>stack = [[Num (- 1)], [Num 9]], functions = Map.empty, cerr = [], cout = []\<rparr>" "- 1" "[[Num 9]]" 0]
    range_spec [of "\<lparr>stack = [[Num 2.5], [Num 9]], functions = Map.empty, cerr = [], cout = []\<rparr>" "2.5" "[[Num 9]]" 0]
  by (simp add: INT_MAX_def upt_rec)

subsection \<open>Shapes\<close>

lemma getShape_acc: "getShape a acc = acc @ getShape a []"
proof (induction a arbitrary: acc rule: nonUniform.induct)
  case (2 a0 rest)
  show ?case
  proof (cases "list_all (sameSize (length a0)) rest")
    case True
    then show ?thesis
      using "2.IH" [OF True, of "acc @ [Suc (length rest)]"] "2.IH" [OF True, of "[Suc (length rest)]"]
      by simp
  next
    case False
    then show ?thesis by simp
  qed
qed simp_all

lemma getShape_Cons: "\<exists>t. getShape a [] = length a # t"
  by (cases a rule: nonUniform.cases) (auto simp: getShape_acc [of _ "[Suc _]"])

subsection \<open>dim\<close>

lemma getDims_nonUniform:
  "nonUniform arr \<Longrightarrow>
   \<exists>ds. ds \<noteq> []
     \<and> getDims arr dims st = (ds, push [] (error ''Error: Non-uniform array for dim'' st))"
  by (induction arr dims st rule: getDims.induct) (auto split: if_splits)

lemma getDims_uniform:
  "\<not> nonUniform arr \<Longrightarrow> getDims arr dims st = (dims @ getShape arr [], st)"
proof (induction arr dims st rule: getDims.induct)
  case (2 a0 rest dims st)
  then show ?case
    using getShape_acc [of a0 "[Suc (length rest)]"] by (auto split: if_splits)
qed simp_all

text \<open>
  On an operand that is not \<open>nonUniform\<close>, \<open>dim\<close> writes nothing and pushes one array:
  the empty Array for a scalar, the inferred shape otherwise.
\<close>

lemma dim_on_uniform:
  assumes "stack st = arr # s" and "\<not> nonUniform arr"
  shows "dim_builtin st
        = Inr (st\<lparr>stack := (if length arr = 1 \<and> \<not> holds_Array (arr ! 0) then []
                              else map (\<lambda>d. Num (real d)) (getShape arr [])) # s\<rparr>)"
  using assms(1) by (simp add: dim_builtin_def Let_def getDims_uniform [OF assms(2)] push_def)

text \<open>
  On every \<open>nonUniform\<close> operand, \<open>dim\<close> writes one diagnostic line and leaves two arrays
  on the rest of the stack: the empty Array that the failing level pushes, and on top of
  it the dimensions collected up to that level.
\<close>

lemma dim_on_nonUniform:
  assumes "stack st = arr # s" and "nonUniform arr"
  shows "\<exists>ds. ds \<noteq> []
     \<and> dim_builtin st
       = Inr (st\<lparr>stack := map (\<lambda>d. Num (real d)) ds # [] # s,
                cerr := cerr st @ [''Error: Non-uniform array for dim'']\<rparr>)"
proof -
  from assms(2) have ns: "(length arr = Suc 0 \<and> \<not> holds_Array (arr ! 0)) = False"
    by (cases arr rule: nonUniform.cases) auto
  from getDims_nonUniform [OF assms(2)] obtain ds where ds: "ds \<noteq> []"
    "getDims arr [] (st\<lparr>stack := s\<rparr>)
       = (ds, push [] (error ''Error: Non-uniform array for dim'' (st\<lparr>stack := s\<rparr>)))"
    by blast
  with assms(1) have "dim_builtin st
      = Inr (st\<lparr>stack := map (\<lambda>d. Num (real d)) ds # [] # s,
                cerr := cerr st @ [''Error: Non-uniform array for dim'']\<rparr>)"
    by (simp add: dim_builtin_def Let_def ns push_def error_def)
  with ds(1) show ?thesis by blast
qed

text \<open>
  C5. The claim has \<open>dim\<close>, on an array of inconsistent nesting at any level, write one
  diagnostic line and push nothing, so that the stack is the original one without the
  operand. On the operand \<open>[[1], [2, 3]]\<close> the diagnostic is written once, and two
  arrays are left on the rest of the stack: the empty Array, and the dimensions \<open>[2]\<close>
  collected before the failure. On the operand \<open>[[[1], [2]], [[3, 4], [5]]]\<close>, whose
  second element is not regular, there is no diagnostic: only first elements are
  descended into, and the dimensions \<open>[2, 2, 1]\<close> are pushed.
\<close>

theorem dim_nonuniform_outcome:
  "dim_builtin \<lparr>stack = [[Arr [Num 1], Arr [Num 2, Num 3]], [Num 9]], functions = Map.empty,
       cerr = [], cout = []\<rparr>
     = Inr \<lparr>stack = [[Num 2], [], [Num 9]], functions = Map.empty,
         cerr = [''Error: Non-uniform array for dim''], cout = []\<rparr>
   \<and> dim_builtin \<lparr>stack = [[Arr [Arr [Num 1], Arr [Num 2]], Arr [Arr [Num 3, Num 4], Arr [Num 5]]],
         [Num 9]], functions = Map.empty, cerr = [], cout = []\<rparr>
     = Inr \<lparr>stack = [[Num 2, Num 2, Num 1], [Num 9]], functions = Map.empty,
         cerr = [], cout = []\<rparr>"
  by (simp add: dim_builtin_def Let_def push_def error_def)

subsection \<open>Element-wise arithmetic\<close>

lemma pick_nth: "i < length x \<Longrightarrow> pick x i = Inr (x ! i)"
  by (cases "length x = 1") (auto simp: pick_def elemAt_def)

lemma pick_single: "length x = 1 \<Longrightarrow> pick x i = Inr (x ! 0)"
  by (simp add: pick_def elemAt_def)

lemma leafLoop_shape:
  "leafLoop opName op x y idxs res = Inr (r, m) \<Longrightarrow> m = [] \<or> (r = [] \<and> (\<exists>l. m = [l]))"
  by (induction idxs arbitrary: res)
    (auto split: sum.splits element.splits if_splits)

lemma leafLoop_good:
  "(\<And>i. i \<in> set idxs \<Longrightarrow> pick x i = Inr (fx i) \<and> pick y i = Inr (fy i)
       \<and> \<not> badLeaf opName (fx i, fy i)) \<Longrightarrow>
   leafLoop opName op x y idxs res
     = Inr (res @ map (\<lambda>i. Num (op (numOf (fx i)) (numOf (fy i)))) idxs, [])"
proof (induction idxs arbitrary: res)
  case Nil
  show ?case by simp
next
  case (Cons i idxs)
  from Cons.prems [of i] obtain u v where uv: "fx i = Num u" "fy i = Num v"
    and nz: "\<not> (opName = ''/'' \<and> v = 0)" and p: "pick x i = Inr (fx i)" "pick y i = Inr (fy i)"
    by (cases "fx i"; cases "fy i") (auto simp: badLeaf_def)
  have "leafLoop opName op x y (i # idxs) res
      = leafLoop opName op x y idxs (res @ [Num (op u v)])"
    using uv nz p by auto
  also have "\<dots> = Inr ((res @ [Num (op u v)]) @ map (\<lambda>i. Num (op (numOf (fx i)) (numOf (fy i)))) idxs, [])"
    by (rule Cons.IH) (simp add: Cons.prems)
  finally show ?case using uv by simp
qed

lemma leafLoop_bad:
  "(\<And>i. i \<in> set idxs \<Longrightarrow> pick x i = Inr (fx i) \<and> pick y i = Inr (fy i)) \<Longrightarrow>
   \<exists>i\<in>set idxs. badLeaf opName (fx i, fy i) \<Longrightarrow>
   \<exists>msg. leafLoop opName op x y idxs res = Inr ([], [msg])"
proof (induction idxs arbitrary: res)
  case Nil
  then show ?case by simp
next
  case (Cons i idxs)
  have p: "pick x i = Inr (fx i)" "pick y i = Inr (fy i)"
    using Cons.prems(1) [of i] by simp_all
  show ?case
  proof (cases "badLeaf opName (fx i, fy i)")
    case True
    then show ?thesis
      using p by (cases "fx i"; cases "fy i") (auto simp: badLeaf_def)
  next
    case False
    then obtain u v where uv: "fx i = Num u" "fy i = Num v" and nz: "\<not> (opName = ''/'' \<and> v = 0)"
      by (cases "fx i"; cases "fy i") (auto simp: badLeaf_def)
    from False Cons.prems(2) have "\<exists>i\<in>set idxs. badLeaf opName (fx i, fy i)"
      by auto
    with Cons.IH [of "res @ [Num (op u v)]"] Cons.prems(1)
    have "\<exists>msg. leafLoop opName op x y idxs (res @ [Num (op u v)]) = Inr ([], [msg])"
      by simp
    then show ?thesis using uv nz p by auto
  qed
qed
lemma nestLoop_shape:
  "(\<And>xs ys r m. rec xs ys = Inr (r, m) \<Longrightarrow> m = [] \<or> (r = [] \<and> (\<exists>l. m = [l]))) \<Longrightarrow>
   nestLoop rec x y idxs res = Inr (r, m) \<Longrightarrow> m = [] \<or> (r = [] \<and> (\<exists>l. m = [l]))"
proof (induction idxs arbitrary: res)
  case Nil
  then show ?case by simp
next
  case (Cons i idxs)
  from Cons.prems(2) obtain xs ys sr sm where s: "subAt x i = Inr xs" "subAt y i = Inr ys"
    and r: "rec xs ys = Inr (sr, sm)"
    by (auto split: sum.splits)
  show ?case
  proof (cases "sr = []")
    case True
    with s r Cons.prems(2) have "r = []" "m = sm" by auto
    with Cons.prems(1) [OF r] True show ?thesis by auto
  next
    case False
    with s r Cons.prems(2) have "nestLoop rec x y idxs (res @ [Arr sr]) = Inr (r, m)" by auto
    with Cons.IH Cons.prems(1) show ?thesis by blast
  qed
qed

lemma applyOpRecursive_shape:
  "applyOpRecursive opName op x y sh = Inr (r, m) \<Longrightarrow> m = [] \<or> (r = [] \<and> (\<exists>l. m = [l]))"
proof (induction opName op x y sh arbitrary: r m rule: applyOpRecursive.induct)
  case (1 opName op x y)
  then show ?case by simp
next
  case (2 opName op x y n)
  then show ?case using leafLoop_shape by simp
next
  case (3 opName op x y n v va)
  show ?case
  proof (rule nestLoop_shape)
    show "nestLoop (\<lambda>xSub ySub. applyOpRecursive opName op xSub ySub (v # va)) x y [0..<n] [] = Inr (r, m)"
      using "3.prems" by simp
  next
    fix xs ys r' m'
    assume "applyOpRecursive opName op xs ys (v # va) = Inr (r', m')"
    then show "m' = [] \<or> (r' = [] \<and> (\<exists>l. m' = [l]))" by (rule "3.IH")
  qed
qed

lemma nestLoop_good:
  "(\<And>i. i \<in> set idxs \<Longrightarrow> subAt x i = Inr (sx i) \<and> subAt y i = Inr (sy i)
       \<and> rec (sx i) (sy i) = Inr (g i, []) \<and> g i \<noteq> []) \<Longrightarrow>
   nestLoop rec x y idxs res = Inr (res @ map (\<lambda>i. Arr (g i)) idxs, [])"
proof (induction idxs arbitrary: res)
  case Nil
  show ?case by simp
next
  case (Cons i idxs)
  have "nestLoop rec x y (i # idxs) res = nestLoop rec x y idxs (res @ [Arr (g i)])"
    using Cons.prems [of i] by simp
  also have "\<dots> = Inr ((res @ [Arr (g i)]) @ map (\<lambda>i. Arr (g i)) idxs, [])"
    by (rule Cons.IH) (simp add: Cons.prems)
  finally show ?case by simp
qed

lemma nestLoop_bad:
  "(\<And>i. i \<in> set idxs \<Longrightarrow> subAt x i = Inr (sx i) \<and> subAt y i = Inr (sy i)
       \<and> ((\<exists>g. rec (sx i) (sy i) = Inr (g, []) \<and> g \<noteq> [])
          \<or> (\<exists>msg. rec (sx i) (sy i) = Inr ([], [msg])))) \<Longrightarrow>
   \<exists>i\<in>set idxs. \<exists>msg. rec (sx i) (sy i) = Inr ([], [msg]) \<Longrightarrow>
   \<exists>msg. nestLoop rec x y idxs res = Inr ([], [msg])"
proof (induction idxs arbitrary: res)
  case Nil
  then show ?case by simp
next
  case (Cons i idxs)
  have s: "subAt x i = Inr (sx i)" "subAt y i = Inr (sy i)"
    using Cons.prems(1) [of i] by simp_all
  show ?case
  proof (cases "\<exists>msg. rec (sx i) (sy i) = Inr ([], [msg])")
    case True
    then show ?thesis using s by auto
  next
    case False
    with Cons.prems(1) [of i] obtain g where g: "rec (sx i) (sy i) = Inr (g, [])" "g \<noteq> []"
      by auto
    from False Cons.prems(2) have "\<exists>i\<in>set idxs. \<exists>msg. rec (sx i) (sy i) = Inr ([], [msg])"
      by auto
    with Cons.IH [of "res @ [Arr g]"] Cons.prems(1)
    have "\<exists>msg. nestLoop rec x y idxs (res @ [Arr g]) = Inr ([], [msg])"
      by simp
    then show ?thesis using s g by simp
  qed
qed
lemma map_nth_zip:
  "length x = n \<Longrightarrow> length y = n \<Longrightarrow>
   map (\<lambda>i. f (x ! i) (y ! i)) [0..<n] = map (\<lambda>(a, b). f a b) (zip x y)"
  by (rule nth_equalityI) simp_all

lemma subAt_conforms:
  assumes "conforms (n # m # sh) x" and "i < n"
  shows "subAt x i = Inr (arrOf (x ! i))" and "conforms (m # sh) (arrOf (x ! i))"
proof -
  from assms have len: "length x = n" and "list_all (\<lambda>e. holds_Array e \<and> conforms (m # sh) (arrOf e)) x"
    by simp_all
  with assms(2) have e: "holds_Array (x ! i)" "conforms (m # sh) (arrOf (x ! i))"
    by (simp_all add: list_all_length)
  from e(1) obtain xs where xs: "x ! i = Arr xs" by (cases "x ! i") auto
  show "conforms (m # sh) (arrOf (x ! i))" by (rule e(2))
  show "subAt x i = Inr (arrOf (x ! i))"
  proof (cases "length x = 1")
    case True
    with len assms(2) have "i = 0" by simp
    with xs True show ?thesis by (simp add: subAt_def)
  next
    case False
    with xs len assms(2) show ?thesis by (simp add: subAt_def elemAt_def)
  qed
qed

lemma length_elementwise:
  "conforms sh x \<Longrightarrow> conforms sh y \<Longrightarrow> length (elementwise op sh x y) = hd sh"
  by (cases "(op, sh, x, y)" rule: elementwise.cases) auto

lemma leafPairs_nested:
  "length x = n \<Longrightarrow> length y = n \<Longrightarrow>
   set (leafPairs (n # m # sh) x y)
     = (\<Union>i\<in>{..<n}. set (leafPairs (m # sh) (arrOf (x ! i)) (arrOf (y ! i))))"
proof -
  assume len: "length x = n" "length y = n"
  have "set (zip x y) = (\<lambda>i. (x ! i, y ! i)) ` {..<n}"
    using len by (auto simp: set_zip)
  then show ?thesis by auto
qed

lemma applyOpRecursive_conforms:
  "conforms sh x \<Longrightarrow> conforms sh y \<Longrightarrow>
   (0 \<in> set sh \<longrightarrow> applyOpRecursive opName op x y sh = Inr ([], []))
   \<and> (0 \<notin> set sh \<longrightarrow>
        ((\<forall>p\<in>set (leafPairs sh x y). \<not> badLeaf opName p) \<longrightarrow>
           applyOpRecursive opName op x y sh = Inr (elementwise op sh x y, []))
      \<and> ((\<exists>p\<in>set (leafPairs sh x y). badLeaf opName p) \<longrightarrow>
           (\<exists>msg. applyOpRecursive opName op x y sh = Inr ([], [msg]))))"
proof (induction sh arbitrary: x y)
  case Nil
  then show ?case by simp
next
  case (Cons n sh)
  show ?case
  proof (cases sh)
    case Nil
    from Cons.prems Nil have len: "length x = n" "length y = n" by simp_all
    have p: "\<And>i. i \<in> set [0..<n] \<Longrightarrow> pick x i = Inr (x ! i) \<and> pick y i = Inr (y ! i)"
      using len by (simp add: pick_nth)
    have zero: "n = 0 \<Longrightarrow> applyOpRecursive opName op x y [n] = Inr ([], [])"
      by simp
    have good: "applyOpRecursive opName op x y [n] = Inr (elementwise op [n] x y, [])"
      if "\<forall>p\<in>set (leafPairs [n] x y). \<not> badLeaf opName p"
    proof -
      have "\<And>i. i \<in> set [0..<n] \<Longrightarrow> pick x i = Inr (x ! i) \<and> pick y i = Inr (y ! i)
          \<and> \<not> badLeaf opName (x ! i, y ! i)"
        using that len p by (auto simp: set_zip)
      from leafLoop_good [OF this, of "[0..<n]" op "[]"]
      show ?thesis
        using map_nth_zip [OF len, of "\<lambda>a b. Num (op (numOf a) (numOf b))"] by simp
    qed
    have bad: "\<exists>msg. applyOpRecursive opName op x y [n] = Inr ([], [msg])"
      if "\<exists>p\<in>set (leafPairs [n] x y). badLeaf opName p"
    proof -
      from that len have "\<exists>i\<in>set [0..<n]. badLeaf opName (x ! i, y ! i)"
        by (auto simp: set_zip)
      from leafLoop_bad [OF p this] show ?thesis by simp
    qed
    from zero good bad show ?thesis unfolding Nil by auto
  next
    case (Cons m sh')
    note sh = Cons
    from Cons.prems sh have len: "length x = n" "length y = n" by simp_all
    have subx: "\<And>i. i < n \<Longrightarrow> subAt x i = Inr (arrOf (x ! i)) \<and> conforms (m # sh') (arrOf (x ! i))"
      using subAt_conforms Cons.prems(1) sh by blast
    have suby: "\<And>i. i < n \<Longrightarrow> subAt y i = Inr (arrOf (y ! i)) \<and> conforms (m # sh') (arrOf (y ! i))"
      using subAt_conforms Cons.prems(2) sh by blast
    let ?rec = "\<lambda>xSub ySub. applyOpRecursive opName op xSub ySub (m # sh')"
    let ?sx = "\<lambda>i. arrOf (x ! i)" and ?sy = "\<lambda>i. arrOf (y ! i)"
    have IH: "\<And>i. i < n \<Longrightarrow>
        (0 \<in> set (m # sh') \<longrightarrow> ?rec (?sx i) (?sy i) = Inr ([], []))
      \<and> (0 \<notin> set (m # sh') \<longrightarrow>
        ((\<forall>p\<in>set (leafPairs (m # sh') (?sx i) (?sy i)). \<not> badLeaf opName p) \<longrightarrow>
           ?rec (?sx i) (?sy i) = Inr (elementwise op (m # sh') (?sx i) (?sy i), []))
      \<and> ((\<exists>p\<in>set (leafPairs (m # sh') (?sx i) (?sy i)). badLeaf opName p) \<longrightarrow>
           (\<exists>msg. ?rec (?sx i) (?sy i) = Inr ([], [msg]))))"
      using Cons.IH [unfolded sh] subx suby by blast
    have app: "applyOpRecursive opName op x y (n # m # sh') = nestLoop ?rec x y [0..<n] []"
      by simp
    have zero: "applyOpRecursive opName op x y (n # m # sh') = Inr ([], [])"
      if "0 \<in> set (n # m # sh')"
    proof (cases "n = 0")
      case True
      then show ?thesis by simp
    next
      case False
      with that have z: "0 \<in> set (m # sh')" and n: "0 < n" by auto
      from n have u: "[0..<n] = 0 # [1..<n]" by (simp add: upt_rec)
      from IH [OF n] z have r0: "?rec (?sx 0) (?sy 0) = Inr ([], [])" by blast
      show ?thesis
        unfolding app u using subx [OF n] suby [OF n] r0 by simp
    qed
    have nonempty: "elementwise op (m # sh') (?sx i) (?sy i) \<noteq> []"
      if "i < n" "0 \<notin> set (m # sh')" for i
    proof -
      have "length (elementwise op (m # sh') (?sx i) (?sy i)) = m"
        using length_elementwise [of "m # sh'" "?sx i" "?sy i" op] subx [OF that(1)] suby [OF that(1)]
        by simp
      with that(2) show ?thesis by auto
    qed
    have good: "applyOpRecursive opName op x y (n # m # sh')
        = Inr (elementwise op (n # m # sh') x y, [])"
      if nz: "0 \<notin> set (n # m # sh')" and ok: "\<forall>p\<in>set (leafPairs (n # m # sh') x y). \<not> badLeaf opName p"
    proof -
      have "\<And>i. i \<in> set [0..<n] \<Longrightarrow> subAt x i = Inr (?sx i) \<and> subAt y i = Inr (?sy i)
          \<and> ?rec (?sx i) (?sy i) = Inr (elementwise op (m # sh') (?sx i) (?sy i), [])
          \<and> elementwise op (m # sh') (?sx i) (?sy i) \<noteq> []"
      proof -
        fix i assume "i \<in> set [0..<n]"
        then have i: "i < n" by simp
        from ok i have "\<forall>p\<in>set (leafPairs (m # sh') (?sx i) (?sy i)). \<not> badLeaf opName p"
          unfolding leafPairs_nested [OF len] by blast
        with IH [OF i] nz subx [OF i] suby [OF i] nonempty [OF i]
        show "subAt x i = Inr (?sx i) \<and> subAt y i = Inr (?sy i)
          \<and> ?rec (?sx i) (?sy i) = Inr (elementwise op (m # sh') (?sx i) (?sy i), [])
          \<and> elementwise op (m # sh') (?sx i) (?sy i) \<noteq> []"
          by simp
      qed
      from nestLoop_good [of "[0..<n]" x ?sx y ?sy ?rec, OF this, of "[]"]
      have "nestLoop ?rec x y [0..<n] []
          = Inr (map (\<lambda>i. Arr (elementwise op (m # sh') (?sx i) (?sy i))) [0..<n], [])"
        by simp
      also have "map (\<lambda>i. Arr (elementwise op (m # sh') (?sx i) (?sy i))) [0..<n]
          = elementwise op (n # m # sh') x y"
        using map_nth_zip [OF len, of "\<lambda>a b. Arr (elementwise op (m # sh') (arrOf a) (arrOf b))"]
        by simp
      finally show ?thesis unfolding app .
    qed
    have bad: "\<exists>msg. applyOpRecursive opName op x y (n # m # sh') = Inr ([], [msg])"
      if nz: "0 \<notin> set (n # m # sh')" and b: "\<exists>p\<in>set (leafPairs (n # m # sh') x y). badLeaf opName p"
    proof -
      have each: "\<And>i. i \<in> set [0..<n] \<Longrightarrow> subAt x i = Inr (?sx i) \<and> subAt y i = Inr (?sy i)
          \<and> ((\<exists>g. ?rec (?sx i) (?sy i) = Inr (g, []) \<and> g \<noteq> [])
             \<or> (\<exists>msg. ?rec (?sx i) (?sy i) = Inr ([], [msg])))"
      proof -
        fix i assume "i \<in> set [0..<n]"
        then have i: "i < n" by simp
        show "subAt x i = Inr (?sx i) \<and> subAt y i = Inr (?sy i)
          \<and> ((\<exists>g. ?rec (?sx i) (?sy i) = Inr (g, []) \<and> g \<noteq> [])
             \<or> (\<exists>msg. ?rec (?sx i) (?sy i) = Inr ([], [msg])))"
          using IH [OF i] nz subx [OF i] suby [OF i] nonempty [OF i]
          by (cases "\<exists>p\<in>set (leafPairs (m # sh') (?sx i) (?sy i)). badLeaf opName p") auto
      qed
      from b obtain i where i: "i < n"
        and "\<exists>p\<in>set (leafPairs (m # sh') (?sx i) (?sy i)). badLeaf opName p"
        unfolding leafPairs_nested [OF len] by blast
      with IH [OF i] nz have "\<exists>msg. ?rec (?sx i) (?sy i) = Inr ([], [msg])"
        by simp
      with i have "\<exists>i\<in>set [0..<n]. \<exists>msg. ?rec (?sx i) (?sy i) = Inr ([], [msg])"
        by auto
      from nestLoop_bad [of "[0..<n]" x ?sx y ?sy ?rec, OF each this, of "[]"]
      show ?thesis unfolding app .
    qed
    from zero good bad show ?thesis unfolding sh by blast
  qed
qed
lemma leafPairs_zero:
  "conforms sh x \<Longrightarrow> conforms sh y \<Longrightarrow> 0 \<in> set sh \<Longrightarrow> leafPairs sh x y = []"
proof (induction sh arbitrary: x y)
  case Nil
  then show ?case by simp
next
  case (Cons n sh)
  show ?case
  proof (cases sh)
    case Nil
    with Cons.prems show ?thesis by simp
  next
    case (Cons m sh')
    from Cons.prems Cons have len: "length x = n" "length y = n" by simp_all
    show ?thesis
    proof (cases "n = 0")
      case True
      with len show ?thesis unfolding Cons by simp
    next
      case False
      with Cons.prems(3) Cons have z: "0 \<in> set (m # sh')" by simp
      have "leafPairs (m # sh') (arrOf (x ! i)) (arrOf (y ! i)) = []" if "i < n" for i
        using Cons.IH [unfolded Cons, OF _ _ z]
          subAt_conforms(2) [OF Cons.prems(1) [unfolded Cons] that]
          subAt_conforms(2) [OF Cons.prems(2) [unfolded Cons] that]
        by blast
      then have "set (leafPairs (n # m # sh') x y) = {}"
        unfolding leafPairs_nested [OF len] by simp
      then show ?thesis unfolding Cons by (simp only: set_empty)
    qed
  qed
qed

lemma applyBinaryOp_run:
  assumes "stack st = b # a # s"
    and "(isScalar a \<and> \<not> isScalar b \<and> sh = getShape b [])
       \<or> (isScalar b \<and> \<not> isScalar a \<and> sh = getShape a [])
       \<or> ((isScalar a \<longleftrightarrow> isScalar b) \<and> getShape a [] = getShape b [] \<and> sh = getShape a [])"
  shows "applyBinaryOp opName op st
    = (case applyOpRecursive opName op a b sh of
         Inl f \<Rightarrow> Inl f
       | Inr (r, m) \<Rightarrow>
           Inr (if r = [] then st\<lparr>stack := s, cerr := cerr st @ m\<rparr>
                else st\<lparr>stack := r # s, cerr := cerr st @ m\<rparr>))"
proof -
  note d = applyBinaryOp_def Let_def shapesEqual_def push_def
  from assms(2) show ?thesis
  proof (elim disjE conjE)
    assume "isScalar a" "\<not> isScalar b" "sh = getShape b []"
    then show ?thesis using assms(1) by (simp add: d split: sum.split prod.split)
  next
    assume "isScalar b" "\<not> isScalar a" "sh = getShape a []"
    then show ?thesis using assms(1) by (simp add: d split: sum.split prod.split)
  next
    assume "isScalar a \<longleftrightarrow> isScalar b" "getShape a [] = getShape b []" "sh = getShape a []"
    then show ?thesis using assms(1) by (simp add: d split: sum.split prod.split)
  qed
qed

lemma applyBinaryOp_mismatch:
  assumes "stack st = b # a # s"
    and "isScalar a \<longleftrightarrow> isScalar b" and "getShape a [] \<noteq> getShape b []"
  shows "applyBinaryOp opName op st
    = Inr (st\<lparr>stack := s,
        cerr := cerr st @ [''Error: '' @ opName @ '' requires a scalar or arrays of equal shape'']\<rparr>)"
  using assms by (auto simp: applyBinaryOp_def Let_def shapesEqual_def error_def)

lemma getShape_rank1: "getShape a [] = [n] \<Longrightarrow> length a = n"
  using getShape_Cons [of a] by auto

lemma getShape_length1: "length (getShape a []) = 1 \<Longrightarrow> getShape a [] = [length a]"
  using getShape_Cons [of a] by auto
lemma scalar_single: "isScalar a \<Longrightarrow> length a = 1"
  by (simp add: isScalar_def)

lemma applyOpRecursive_leaf_error:
  assumes "correspondingLeaves a b = Some ps" and "p \<in> set ps" and "badLeaf opName p"
    and rank: "isScalar a \<noteq> isScalar b \<Longrightarrow> length (getShape a []) = 1 \<and> length (getShape b []) = 1"
  shows "\<exists>sh msg.
      ((isScalar a \<and> \<not> isScalar b \<and> sh = getShape b [])
       \<or> (isScalar b \<and> \<not> isScalar a \<and> sh = getShape a [])
       \<or> ((isScalar a \<longleftrightarrow> isScalar b) \<and> getShape a [] = getShape b [] \<and> sh = getShape a []))
      \<and> applyOpRecursive opName op a b sh = Inr ([], [msg])"
proof -
  consider (left) "isScalar a" "\<not> isScalar b"
    | (right) "isScalar b" "\<not> isScalar a"
    | (both) "isScalar a \<longleftrightarrow> isScalar b"
    by blast
  then show ?thesis
  proof cases
    case left
    with rank have sh: "getShape b [] = [length b]"
      by (simp add: getShape_length1)
    with left assms(1) have ps: "ps = map (\<lambda>ye. (a ! 0, ye)) b"
      by (auto simp: correspondingLeaves_def split: if_splits)
    have pk: "\<And>i. i \<in> set [0..<length b] \<Longrightarrow> pick a i = Inr (a ! 0) \<and> pick b i = Inr (b ! i)"
      using left(1) by (simp add: pick_single pick_nth scalar_single)
    from assms(2,3) ps have "\<exists>i\<in>set [0..<length b]. badLeaf opName (a ! 0, b ! i)"
      by (force simp: in_set_conv_nth)
    from leafLoop_bad [OF pk this, of op "[]"]
    have "\<exists>msg. applyOpRecursive opName op a b (getShape b []) = Inr ([], [msg])"
      unfolding sh by simp
    with left show ?thesis by blast
  next
    case right
    with rank have sh: "getShape a [] = [length a]"
      by (simp add: getShape_length1)
    with right assms(1) have ps: "ps = map (\<lambda>xe. (xe, b ! 0)) a"
      by (auto simp: correspondingLeaves_def split: if_splits)
    have pk: "\<And>i. i \<in> set [0..<length a] \<Longrightarrow> pick a i = Inr (a ! i) \<and> pick b i = Inr (b ! 0)"
      using right(1) by (simp add: pick_single pick_nth scalar_single)
    from assms(2,3) ps have "\<exists>i\<in>set [0..<length a]. badLeaf opName (a ! i, b ! 0)"
      by (force simp: in_set_conv_nth)
    from leafLoop_bad [OF pk this, of op "[]"]
    have "\<exists>msg. applyOpRecursive opName op a b (getShape a []) = Inr ([], [msg])"
      unfolding sh by simp
    with right show ?thesis by blast
  next
    case both
    with assms(1) have eq: "getShape a [] = getShape b []"
      and c: "conforms (getShape a []) a" "conforms (getShape a []) b"
      and ps: "ps = leafPairs (getShape a []) a b"
      by (auto simp: correspondingLeaves_def split: if_splits)
    from assms(2) ps leafPairs_zero [OF c] have nz: "0 \<notin> set (getShape a [])"
      by auto
    from applyOpRecursive_conforms [OF c, of opName op] nz assms(2,3) ps
    have "\<exists>msg. applyOpRecursive opName op a b (getShape a []) = Inr ([], [msg])"
      by blast
    with both eq show ?thesis by blast
  qed
qed

text \<open>
  What holds of a failing leaf. With two arrays \<open>b\<close> (top) and \<open>a\<close> on the stack, a
  scalar being met by arrays of rank 1 only: when some pair of corresponding leaves
  fails, the operation writes exactly one diagnostic line and pushes nothing, and the
  stack is the original one without its two top arrays. The same outcome holds of any
  two operands whenever the operation returns after a diagnostic.
\<close>

lemma applyBinaryOp_leaf_diagnostic:
  assumes "stack st = b # a # s"
    and rank: "isScalar a \<noteq> isScalar b \<Longrightarrow> length (getShape a []) = 1 \<and> length (getShape b []) = 1"
  shows "(correspondingLeaves a b = Some ps \<and> p \<in> set ps \<and> badLeaf opName p \<longrightarrow>
          (\<exists>line. applyBinaryOp opName op st = Inr (st\<lparr>stack := s, cerr := cerr st @ [line]\<rparr>)))
       \<and> (applyBinaryOp opName op st = Inr st' \<and> cerr st' \<noteq> cerr st \<longrightarrow>
          (\<exists>line. st' = st\<lparr>stack := s, cerr := cerr st @ [line]\<rparr>))"
proof (intro conjI impI)
  assume "correspondingLeaves a b = Some ps \<and> p \<in> set ps \<and> badLeaf opName p"
  then obtain sh msg where
    d: "(isScalar a \<and> \<not> isScalar b \<and> sh = getShape b [])
       \<or> (isScalar b \<and> \<not> isScalar a \<and> sh = getShape a [])
       \<or> ((isScalar a \<longleftrightarrow> isScalar b) \<and> getShape a [] = getShape b [] \<and> sh = getShape a [])"
    and r: "applyOpRecursive opName op a b sh = Inr ([], [msg])"
    using applyOpRecursive_leaf_error [of a b ps p opName, OF _ _ _ rank, of op] by blast
  show "\<exists>line. applyBinaryOp opName op st = Inr (st\<lparr>stack := s, cerr := cerr st @ [line]\<rparr>)"
    unfolding applyBinaryOp_run [OF assms(1) d] r by (simp, rule exI, rule refl)
next
  assume run: "applyBinaryOp opName op st = Inr st' \<and> cerr st' \<noteq> cerr st"
  show "\<exists>line. st' = st\<lparr>stack := s, cerr := cerr st @ [line]\<rparr>"
  proof (cases "(isScalar a \<longleftrightarrow> isScalar b) \<and> getShape a [] \<noteq> getShape b []")
    case True
    with run applyBinaryOp_mismatch [OF assms(1), of opName op] show ?thesis by auto
  next
    case False
    then obtain sh where
      d: "(isScalar a \<and> \<not> isScalar b \<and> sh = getShape b [])
       \<or> (isScalar b \<and> \<not> isScalar a \<and> sh = getShape a [])
       \<or> ((isScalar a \<longleftrightarrow> isScalar b) \<and> getShape a [] = getShape b [] \<and> sh = getShape a [])"
      by blast
    from run obtain r m where r: "applyOpRecursive opName op a b sh = Inr (r, m)"
      unfolding applyBinaryOp_run [OF assms(1) d] by (auto split: sum.splits)
    from applyOpRecursive_shape [OF r] have "m = [] \<or> (r = [] \<and> (\<exists>l. m = [l]))" .
    with run show ?thesis
      unfolding applyBinaryOp_run [OF assms(1) d] r by (auto split: if_splits)
  qed
qed

text \<open>
  What holds of the element-wise result, a scalar being met by arrays of rank 1 only:
  when the operands have corresponding leaves, at least one, and every pair is a pair of
  Numbers (with no zero divisor), the operation pushes the result of the specification.
\<close>

lemma applyBinaryOp_elementwise:
  assumes "stack st = b # a # s"
    and "correspondingLeaves a b = Some ps" and "ps \<noteq> []"
    and "\<forall>p\<in>set ps. \<not> badLeaf opName p"
    and rank: "isScalar a \<noteq> isScalar b \<Longrightarrow> length (getShape a []) = 1 \<and> length (getShape b []) = 1"
  shows "applyBinaryOp opName op st = Inr (st\<lparr>stack := broadcast op a b # s\<rparr>)"
proof -
  consider (left) "isScalar a" "\<not> isScalar b"
    | (right) "isScalar b" "\<not> isScalar a"
    | (both) "isScalar a \<longleftrightarrow> isScalar b"
    by blast
  then show ?thesis
  proof cases
    case left
    with rank have sh: "getShape b [] = [length b]"
      by (simp add: getShape_length1)
    with left assms(2) have ps: "ps = map (\<lambda>ye. (a ! 0, ye)) b"
      by (auto simp: correspondingLeaves_def split: if_splits)
    have pk: "\<And>i. i \<in> set [0..<length b] \<Longrightarrow> pick a i = Inr (a ! 0) \<and> pick b i = Inr (b ! i)
        \<and> \<not> badLeaf opName (a ! 0, b ! i)"
      using left(1) assms(4) ps by (simp add: pick_single pick_nth scalar_single)
    have "map (\<lambda>i. Num (op (numOf (a ! 0)) (numOf (b ! i)))) [0..<length b]
        = map (\<lambda>ye. Num (op (numOf (a ! 0)) (numOf ye))) b"
      by (rule nth_equalityI) simp_all
    with leafLoop_good [OF pk, of "[0..<length b]" op "[]"]
    have r: "applyOpRecursive opName op a b (getShape b []) = Inr (broadcast op a b, [])"
      unfolding sh using left sh by (simp add: broadcast_def)
    from ps assms(3) left sh have "broadcast op a b \<noteq> []" by (simp add: broadcast_def)
    moreover have "(isScalar a \<and> \<not> isScalar b \<and> getShape b [] = getShape b [])
       \<or> (isScalar b \<and> \<not> isScalar a \<and> getShape b [] = getShape a [])
       \<or> ((isScalar a \<longleftrightarrow> isScalar b) \<and> getShape a [] = getShape b [] \<and> getShape b [] = getShape a [])"
      using left by simp
    ultimately show ?thesis
      using applyBinaryOp_run [OF assms(1), of "getShape b []" opName op] r by simp
  next
    case right
    with rank have sh: "getShape a [] = [length a]"
      by (simp add: getShape_length1)
    with right assms(2) have ps: "ps = map (\<lambda>xe. (xe, b ! 0)) a"
      by (auto simp: correspondingLeaves_def split: if_splits)
    have pk: "\<And>i. i \<in> set [0..<length a] \<Longrightarrow> pick a i = Inr (a ! i) \<and> pick b i = Inr (b ! 0)
        \<and> \<not> badLeaf opName (a ! i, b ! 0)"
      using right(1) assms(4) ps by (simp add: pick_single pick_nth scalar_single)
    have "map (\<lambda>i. Num (op (numOf (a ! i)) (numOf (b ! 0)))) [0..<length a]
        = map (\<lambda>xe. Num (op (numOf xe) (numOf (b ! 0)))) a"
      by (rule nth_equalityI) simp_all
    with leafLoop_good [OF pk, of "[0..<length a]" op "[]"]
    have r: "applyOpRecursive opName op a b (getShape a []) = Inr (broadcast op a b, [])"
      unfolding sh using right sh by (simp add: broadcast_def)
    from ps assms(3) right sh have "broadcast op a b \<noteq> []" by (simp add: broadcast_def)
    moreover have "(isScalar a \<and> \<not> isScalar b \<and> getShape a [] = getShape b [])
       \<or> (isScalar b \<and> \<not> isScalar a \<and> getShape a [] = getShape a [])
       \<or> ((isScalar a \<longleftrightarrow> isScalar b) \<and> getShape a [] = getShape b [] \<and> getShape a [] = getShape a [])"
      using right by simp
    ultimately show ?thesis
      using applyBinaryOp_run [OF assms(1), of "getShape a []" opName op] r by simp
  next
    case both
    with assms(2) have eq: "getShape a [] = getShape b []"
      and c: "conforms (getShape a []) a" "conforms (getShape a []) b"
      and ps: "ps = leafPairs (getShape a []) a b"
      by (auto simp: correspondingLeaves_def split: if_splits)
    from assms(3) ps leafPairs_zero [OF c] have nz: "0 \<notin> set (getShape a [])"
      by auto
    from both have bc: "broadcast op a b = elementwise op (getShape a []) a b"
      by (auto simp: broadcast_def)
    from applyOpRecursive_conforms [OF c, of opName op] nz assms(4) ps
    have r: "applyOpRecursive opName op a b (getShape a []) = Inr (broadcast op a b, [])"
      unfolding bc by blast
    obtain t where "getShape a [] = length a # t" using getShape_Cons by blast
    with nz length_elementwise [OF c, of op] have "broadcast op a b \<noteq> []"
      unfolding bc by auto
    moreover have "(isScalar a \<and> \<not> isScalar b \<and> getShape a [] = getShape b [])
       \<or> (isScalar b \<and> \<not> isScalar a \<and> getShape a [] = getShape a [])
       \<or> ((isScalar a \<longleftrightarrow> isScalar b) \<and> getShape a [] = getShape b [] \<and> getShape a [] = getShape a [])"
      using both eq by simp
    ultimately show ?thesis
      using applyBinaryOp_run [OF assms(1), of "getShape a []" opName op] r by simp
  qed
qed

text \<open>
  C1. The claim promises the element-wise result for a scalar against an array of any
  rank and for arrays without elements. A scalar against a nested array ends in
  \<^verbatim>\<open>std::bad_variant_access\<close>, and an empty result is taken for the sign of an error
  and not pushed: the two operands are gone and nothing is written.
\<close>

theorem applyBinaryOp_scalar_nested_and_empty:
  "applyBinaryOp ''+'' (\<lambda>x y. x + y)
     \<lparr>stack = [[Arr [Num 1, Num 2], Arr [Num 3, Num 4]], [Num 5]], functions = Map.empty,
       cerr = [], cout = []\<rparr>
     = Inl BadVariantAccess
   \<and> applyBinaryOp ''+'' (\<lambda>x y. x + y)
     \<lparr>stack = [[Num 5], [Arr [Num 1, Num 2], Arr [Num 3, Num 4]]], functions = Map.empty,
       cerr = [], cout = []\<rparr>
     = Inl BadVariantAccess
   \<and> applyBinaryOp ''+'' (\<lambda>x y. x + y)
     \<lparr>stack = [[], []], functions = Map.empty, cerr = [], cout = []\<rparr>
     = Inr \<lparr>stack = [], functions = Map.empty, cerr = [], cout = []\<rparr>
   \<and> applyBinaryOp ''+'' (\<lambda>x y. x + y)
     \<lparr>stack = [[], [Num 5]], functions = Map.empty, cerr = [], cout = []\<rparr>
     = Inr \<lparr>stack = [], functions = Map.empty, cerr = [], cout = []\<rparr>"
  by (simp add: applyBinaryOp_def isScalar_def shapesEqual_def subAt_def elemAt_def)
lemma pick_fault: "pick x i = Inl f \<Longrightarrow> f = UndefinedBehaviour"
  by (auto simp: pick_def elemAt_def split: if_splits)

lemma leafLoop_flip:
  "opName \<noteq> ''/'' \<Longrightarrow>
   leafLoop opName op x y idxs res = leafLoop opName (\<lambda>u v. op v u) y x idxs res"
proof (induction idxs arbitrary: res)
  case Nil
  show ?case by simp
next
  case (Cons i idxs)
  show ?case
  proof (cases "pick x i")
    case (Inl f)
    then show ?thesis
      using pick_fault [of x i f] pick_fault [of y i] by (cases "pick y i") auto
  next
    case xi: (Inr xe)
    show ?thesis
    proof (cases "pick y i")
      case (Inl f)
      with xi show ?thesis by simp
    next
      case yi: (Inr ye)
      show ?thesis
        using xi yi Cons.prems Cons.IH [OF Cons.prems]
        by (cases xe; cases ye) simp_all
    qed
  qed
qed

lemma getShape_rank2:
  "getShape a [] = n # m # t \<Longrightarrow> 0 < n \<and> holds_Array (a ! 0)"
  by (cases a rule: nonUniform.cases)
    (auto simp: getShape_acc [of _ "[Suc _]"] split: if_splits)

lemma nested_scalar_left:
  assumes "isScalar s" and "0 < n"
  shows "applyOpRecursive opName op s x (n # m # t) = Inl BadVariantAccess"
proof -
  from assms(1) obtain v where s: "s = [Num v]"
    by (cases s; cases "hd s") (auto simp: isScalar_def)
  from assms(2) have "[0..<n] = 0 # [1..<n]" by (simp add: upt_rec)
  then show ?thesis by (simp add: s subAt_def elemAt_def)
qed

lemma nested_scalar_right:
  assumes "isScalar s" and "0 < n" and "holds_Array (x ! 0)" and "x \<noteq> []"
  shows "applyOpRecursive opName op x s (n # m # t) = Inl BadVariantAccess"
proof -
  from assms(1) obtain v where s: "s = [Num v]"
    by (cases s; cases "hd s") (auto simp: isScalar_def)
  from assms(3) obtain x0 where x0: "x ! 0 = Arr x0" by (cases "x ! 0") auto
  with assms(4) have "subAt x 0 = Inr x0" by (simp add: subAt_def elemAt_def)
  moreover from assms(2) have "[0..<n] = 0 # [1..<n]" by (simp add: upt_rec)
  ultimately show ?thesis by (simp add: s subAt_def elemAt_def)
qed

lemma applyBinaryOp_flip:
  assumes "isScalar s" and "opName \<noteq> ''/''"
  shows "applyBinaryOp opName op (st\<lparr>stack := A # s # rest\<rparr>)
       = applyBinaryOp opName (\<lambda>u v. op v u) (st\<lparr>stack := s # A # rest\<rparr>)"
proof (cases "isScalar A")
  case True
  from assms(1) True have sh: "getShape s [] = [1]" "getShape A [] = [1]"
    by (cases s; cases "hd s"; cases A; cases "hd A"; simp add: isScalar_def)+
  show ?thesis
    using assms(1) True sh leafLoop_flip [OF assms(2), of op s A "[0..<1]" "[]"]
    by (simp add: applyBinaryOp_def shapesEqual_def)
next
  case False
  obtain t where t: "getShape A [] = length A # t" using getShape_Cons by blast
  have "applyOpRecursive opName op s A (getShape A [])
      = applyOpRecursive opName (\<lambda>u v. op v u) A s (getShape A [])"
  proof (cases t)
    case Nil
    with t leafLoop_flip [OF assms(2), of op s A "[0..<length A]" "[]"] show ?thesis by simp
  next
    case (Cons m t')
    from getShape_rank2 [OF t [unfolded Cons]] have n: "0 < length A" "holds_Array (A ! 0)"
      by simp_all
    then have "A \<noteq> []" by auto
    from nested_scalar_left [OF assms(1) n(1)] nested_scalar_right [OF assms(1) n(1) n(2) this]
    show ?thesis unfolding t Cons by simp
  qed
  then show ?thesis
    using assms(1) False by (simp add: applyBinaryOp_def)
qed

lemma scalar_nested_fault:
  assumes "isScalar s" and "2 \<le> length (getShape A [])"
  shows "applyBinaryOp opName op (st\<lparr>stack := A # s # rest\<rparr>) = Inl BadVariantAccess"
    and "applyBinaryOp opName op (st\<lparr>stack := s # A # rest\<rparr>) = Inl BadVariantAccess"
proof -
  obtain t where t: "getShape A [] = length A # t" using getShape_Cons by blast
  with assms(2) obtain m t' where sh: "getShape A [] = length A # m # t'"
    by (cases t) auto
  from getShape_rank2 [OF sh] have n: "0 < length A" "holds_Array (A ! 0)" by simp_all
  then have ne: "A \<noteq> []" by auto
  from n(2) have ns: "\<not> isScalar A" by (simp add: isScalar_def)
  show "applyBinaryOp opName op (st\<lparr>stack := A # s # rest\<rparr>) = Inl BadVariantAccess"
    using assms(1) ns nested_scalar_left [OF assms(1) n(1), of opName op A m t']
    by (simp add: applyBinaryOp_def sh)
  show "applyBinaryOp opName op (st\<lparr>stack := s # A # rest\<rparr>) = Inl BadVariantAccess"
    using assms(1) ns nested_scalar_right [OF assms(1) n(1) n(2) ne, of opName op m t']
    by (simp add: applyBinaryOp_def sh)
qed

text \<open>
  C6. The claim has every leaf-level error of a binary operation end in exactly one
  diagnostic line, with nothing pushed and the stack without its two top arrays. When
  one operand is a scalar and the other an array of rank 2 or more, whatever its leaves,
  the operation ends in \<^verbatim>\<open>std::bad_variant_access\<close>, before any leaf is read and
  without a diagnostic. So does the division of the scalar 5 by \<open>[[1, 0], [3, 4]]\<close>,
  with the zero divisor of the pair \<open>(5, 0)\<close>, and the addition of
  \<open>[[1, ''x''], [3, 4]]\<close> and 5, with a leaf that is not a Number.
\<close>

theorem applyBinaryOp_leaf_error_fault:
  assumes "stack st = b # a # s"
    and "(isScalar a \<and> 2 \<le> length (getShape b [])) \<or> (isScalar b \<and> 2 \<le> length (getShape a []))"
  shows "applyBinaryOp opName op st = Inl BadVariantAccess"
proof -
  from assms(1) have st: "st\<lparr>stack := b # a # s\<rparr> = st" by (cases st) simp
  from assms(2) show ?thesis
  proof
    assume "isScalar a \<and> 2 \<le> length (getShape b [])"
    then have "applyBinaryOp opName op (st\<lparr>stack := b # a # s\<rparr>) = Inl BadVariantAccess"
      using scalar_nested_fault(1) by blast
    then show ?thesis by (simp only: st)
  next
    assume "isScalar b \<and> 2 \<le> length (getShape a [])"
    then have "applyBinaryOp opName op (st\<lparr>stack := b # a # s\<rparr>) = Inl BadVariantAccess"
      using scalar_nested_fault(2) by blast
    then show ?thesis by (simp only: st)
  qed
qed

theorem applyBinaryOp_leaf_error_fault_witness:
  "correspondingLeaves [Num 5] [Arr [Num 1, Num 0], Arr [Num 3, Num 4]]
     = Some [(Num 5, Num 1), (Num 5, Num 0), (Num 5, Num 3), (Num 5, Num 4)]
   \<and> badLeaf ''/'' (Num 5, Num 0)
   \<and> applyBinaryOp ''/'' (\<lambda>x y. x / y)
     \<lparr>stack = [[Arr [Num 1, Num 0], Arr [Num 3, Num 4]], [Num 5], [Num 9]], functions = Map.empty,
       cerr = [], cout = []\<rparr>
     = Inl BadVariantAccess
   \<and> correspondingLeaves [Arr [Num 1, Str ''x''], Arr [Num 3, Num 4]] [Num 5]
     = Some [(Num 1, Num 5), (Str ''x'', Num 5), (Num 3, Num 5), (Num 4, Num 5)]
   \<and> badLeaf ''+'' (Str ''x'', Num 5)
   \<and> applyBinaryOp ''+'' (\<lambda>x y. x + y)
     \<lparr>stack = [[Num 5], [Arr [Num 1, Str ''x''], Arr [Num 3, Num 4]], [Num 9]], functions = Map.empty,
       cerr = [], cout = []\<rparr>
     = Inl BadVariantAccess"
  using applyBinaryOp_leaf_error_fault [where opName = "''/''" and op = "\<lambda>x y. x / y"
      and st = "\<lparr>stack = [[Arr [Num 1, Num 0], Arr [Num 3, Num 4]], [Num 5], [Num 9]],
        functions = Map.empty, cerr = [], cout = []\<rparr>"
      and b = "[Arr [Num 1, Num 0], Arr [Num 3, Num 4]]" and a = "[Num 5]" and s = "[[Num 9]]"]
    applyBinaryOp_leaf_error_fault [where opName = "''+''" and op = "\<lambda>x y. x + y"
      and st = "\<lparr>stack = [[Num 5], [Arr [Num 1, Str ''x''], Arr [Num 3, Num 4]], [Num 9]],
        functions = Map.empty, cerr = [], cout = []\<rparr>"
      and b = "[Num 5]" and a = "[Arr [Num 1, Str ''x''], Arr [Num 3, Num 4]]" and s = "[[Num 9]]"]
  by (simp add: correspondingLeaves_def badLeaf_def isScalar_def)

lemma leafLoop_returns:
  "(\<And>i. i \<in> set idxs \<Longrightarrow> \<exists>xe ye. pick x i = Inr xe \<and> pick y i = Inr ye) \<Longrightarrow>
   \<exists>r m. leafLoop opName op x y idxs res = Inr (r, m)"
proof (induction idxs arbitrary: res)
  case Nil
  show ?case by simp
next
  case (Cons i idxs)
  from Cons.prems [of i] obtain xe ye where p: "pick x i = Inr xe" "pick y i = Inr ye"
    by auto
  have rest: "\<exists>r m. leafLoop opName op x y idxs res' = Inr (r, m)" for res'
    by (rule Cons.IH) (rule Cons.prems, simp)
  show ?case
    using p rest by (cases xe; cases ye) auto
qed

lemma applyBinaryOp_rank1_returns:
  assumes "isScalar s" and "length (getShape A []) = 1"
  shows "\<exists>st'. applyBinaryOp opName op (st\<lparr>stack := A # s # rest\<rparr>) = Inr st'"
proof -
  have shA: "getShape A [] = [length A]" using assms(2) by (rule getShape_length1)
  from assms(1) have shs: "getShape s [] = [1]"
    by (cases s; cases "hd s") (simp_all add: isScalar_def)
  have pk: "\<And>i. i \<in> set [0..<length A] \<Longrightarrow> \<exists>xe ye. pick s i = Inr xe \<and> pick A i = Inr ye"
    using assms(1) by (simp add: pick_single pick_nth scalar_single)
  from leafLoop_returns [OF pk, of "[0..<length A]" opName op "[]"]
  obtain r m where r: "applyOpRecursive opName op s A (getShape A []) = Inr (r, m)"
    unfolding shA by auto
  have d: "(isScalar s \<and> \<not> isScalar A \<and> getShape A [] = getShape A [])
       \<or> (isScalar A \<and> \<not> isScalar s \<and> getShape A [] = getShape s [])
       \<or> ((isScalar s \<longleftrightarrow> isScalar A) \<and> getShape s [] = getShape A [] \<and> getShape A [] = getShape s [])"
    using assms(1) shs shA by (cases "isScalar A") (auto simp: isScalar_def)
  show ?thesis
    using applyBinaryOp_run [of "st\<lparr>stack := A # s # rest\<rparr>" A s rest "getShape A []" opName op, OF _ d] r
    by simp
qed

text \<open>
  The claim C7 as written has the same result values in both operand orders, for every
  one of the five operations and every array. The subtraction of an array from a scalar
  and of the scalar from the array differ; and against an array of rank 2 there are no
  result values in either order, the addition too ends in \<^verbatim>\<open>std::bad_variant_access\<close>.
\<close>

theorem scalar_order_counterexample:
  "applyBinaryOp ''-'' (\<lambda>x y. x - y)
     \<lparr>stack = [[Num 2, Num 3], [Num 1]], functions = Map.empty, cerr = [], cout = []\<rparr>
     = Inr \<lparr>stack = [[Num (- 1), Num (- 2)]], functions = Map.empty, cerr = [], cout = []\<rparr>
   \<and> applyBinaryOp ''-'' (\<lambda>x y. x - y)
     \<lparr>stack = [[Num 1], [Num 2, Num 3]], functions = Map.empty, cerr = [], cout = []\<rparr>
     = Inr \<lparr>stack = [[Num 1, Num 2]], functions = Map.empty, cerr = [], cout = []\<rparr>
   \<and> applyBinaryOp ''+'' (\<lambda>x y. x + y)
     \<lparr>stack = [[Arr [Num 1, Num 2], Arr [Num 3, Num 4]], [Num 5]], functions = Map.empty,
       cerr = [], cout = []\<rparr>
     = Inl BadVariantAccess
   \<and> applyBinaryOp ''+'' (\<lambda>x y. x + y)
     \<lparr>stack = [[Num 5], [Arr [Num 1, Num 2], Arr [Num 3, Num 4]]], functions = Map.empty,
       cerr = [], cout = []\<rparr>
     = Inl BadVariantAccess"
  by (simp add: applyBinaryOp_def isScalar_def shapesEqual_def pick_def elemAt_def subAt_def push_def)

text \<open>
  C7, amended. For the commutative operations \<open>+\<close> and \<open>*\<close>, a scalar and an array of
  rank 1: the operation returns in both operand orders, and in the same state, with the
  same stack and the same diagnostics.
\<close>

theorem scalar_broadcast_symmetric:
  assumes "isScalar s" and "length (getShape A []) = 1" and "name = ''+'' \<or> name = ''*''"
  shows "\<exists>builtIn st'. builtIns pow name = Some builtIn
     \<and> builtIn (st\<lparr>stack := A # s # rest\<rparr>) = Inr st'
     \<and> builtIn (st\<lparr>stack := s # A # rest\<rparr>) = Inr st'"
proof -
  have plus: "applyBinaryOp ''+'' (\<lambda>x y. x + y) (st\<lparr>stack := A # s # rest\<rparr>)
      = applyBinaryOp ''+'' (\<lambda>x y. x + y) (st\<lparr>stack := s # A # rest\<rparr>)"
    using applyBinaryOp_flip [OF assms(1), where opName = "''+''" and op = "\<lambda>x y. x + y" and st = st and A = A and rest = rest]
    by (simp add: add.commute)
  have times: "applyBinaryOp ''*'' (\<lambda>x y. x * y) (st\<lparr>stack := A # s # rest\<rparr>)
      = applyBinaryOp ''*'' (\<lambda>x y. x * y) (st\<lparr>stack := s # A # rest\<rparr>)"
    using applyBinaryOp_flip [OF assms(1), where opName = "''*''" and op = "\<lambda>x y. x * y" and st = st and A = A and rest = rest]
    by (simp add: mult.commute)
  from assms(3) show ?thesis
  proof
    assume n: "name = ''+''"
    from applyBinaryOp_rank1_returns [OF assms(1,2), where opName = "''+''" and op = "\<lambda>x y. x + y" and st = st and rest = rest]
    obtain st' where a: "applyBinaryOp ''+'' (\<lambda>x y. x + y) (st\<lparr>stack := A # s # rest\<rparr>) = Inr st'"
      by blast
    with plus have b: "applyBinaryOp ''+'' (\<lambda>x y. x + y) (st\<lparr>stack := s # A # rest\<rparr>) = Inr st'"
      by simp
    show ?thesis unfolding n using a b builtIns_simps(1) [of pow] by blast
  next
    assume n: "name = ''*''"
    from applyBinaryOp_rank1_returns [OF assms(1,2), where opName = "''*''" and op = "\<lambda>x y. x * y" and st = st and rest = rest]
    obtain st' where a: "applyBinaryOp ''*'' (\<lambda>x y. x * y) (st\<lparr>stack := A # s # rest\<rparr>) = Inr st'"
      by blast
    with times have b: "applyBinaryOp ''*'' (\<lambda>x y. x * y) (st\<lparr>stack := s # A # rest\<rparr>) = Inr st'"
      by simp
    show ?thesis unfolding n using a b builtIns_simps(3) [of pow] by blast
  qed
qed

theorem scalar_broadcast_symmetric_witness:
  "isScalar [Num 2] \<and> length (getShape [Num 1, Num 2, Num 3] []) = 1
   \<and> (\<exists>builtIn st'. builtIns (powr) ''*'' = Some builtIn
     \<and> builtIn \<lparr>stack = [[Num 1, Num 2, Num 3], [Num 2]], functions = Map.empty, cerr = [], cout = []\<rparr>
       = Inr st'
     \<and> builtIn \<lparr>stack = [[Num 2], [Num 1, Num 2, Num 3]], functions = Map.empty, cerr = [], cout = []\<rparr>
       = Inr st')"
  using scalar_broadcast_symmetric [where s = "[Num 2]" and name = "''*''" and pow = "(powr)"
      and st = "\<lparr>stack = [], functions = Map.empty, cerr = [], cout = []\<rparr>"
      and A = "[Num 1, Num 2, Num 3]" and rest = "[]"]
  by (simp add: isScalar_def)

subsection \<open>matmul\<close>

lemma getShape_matrix:
  assumes "getShape a [] = [m, n]"
  shows "length a = m" and "\<And>e. e \<in> set a \<Longrightarrow> holds_Array e \<and> length (arrOf e) = n"
proof -
  from assms obtain a0 rest where a: "a = Arr a0 # rest"
    by (cases a rule: nonUniform.cases) auto
  from assms a have u: "list_all (sameSize (length a0)) rest"
    by (auto split: if_splits)
  with assms a have "getShape a0 [Suc (length rest)] = [m, n]" by simp
  then have s: "[Suc (length rest)] @ getShape a0 [] = [m, n]"
    using getShape_acc [of a0 "[Suc (length rest)]"] by simp
  with a show "length a = m" by simp
  from s getShape_Cons [of a0] have n: "length a0 = n" by auto
  fix e assume "e \<in> set a"
  with a u n show "holds_Array e \<and> length (arrOf e) = n"
    by (cases e) (auto simp: list_all_iff)
qed

lemma checkRows_numeric: "checkRows a = None \<longleftrightarrow> numericRows a"
  by (induction a rule: checkRows.induct) (auto simp: numericRows_def)

lemma cell_entry:
  assumes "i < length a" and "holds_Array (a ! i)" and "k < length (arrOf (a ! i))"
    and "list_all holds_double (arrOf (a ! i))"
  shows "cell a i k = Inr (entry a i k)"
proof -
  from assms(2) obtain row where row: "a ! i = Arr row" by (cases "a ! i") auto
  with assms(3,4) have "holds_double (row ! k)" by (simp add: list_all_length)
  then obtain v where "row ! k = Num v" by (cases "row ! k") auto
  with row assms(1,3) show ?thesis by (simp add: cell_def elemAt_def entry_def)
qed

lemma matrix_cell:
  assumes "getShape a [] = [m, n]" and "numericRows a" and "i < m" and "k < n"
  shows "cell a i k = Inr (entry a i k)"
proof -
  from getShape_matrix(1) [OF assms(1)] assms(3) have i: "i < length a" by simp
  then have "a ! i \<in> set a" by simp
  with getShape_matrix(2) [OF assms(1)] assms(2)
  have "holds_Array (a ! i)" "length (arrOf (a ! i)) = n" "list_all holds_double (arrOf (a ! i))"
    by (auto simp: numericRows_def list_all_iff)
  with i assms(4) show ?thesis by (simp add: cell_entry)
qed

lemma sumLoop_sum:
  "(\<And>k. k \<in> set ks \<Longrightarrow> cell a i k = Inr (fa k) \<and> cell b k j = Inr (fb k)) \<Longrightarrow>
   sumLoop a b i j ks acc = Inr (acc + (\<Sum>k\<leftarrow>ks. fa k * fb k))"
  by (induction ks arbitrary: acc) (simp_all add: add.assoc)

lemma rowLoop_row:
  "(\<And>j. j \<in> set js \<Longrightarrow> sumLoop a b i j [0..<n] 0 = Inr (g j)) \<Longrightarrow>
   rowLoop a b n i js row = Inr (row @ map (\<lambda>j. Num (g j)) js)"
  by (induction js arbitrary: row) simp_all

lemma matLoop_rows:
  "(\<And>i. i \<in> set idxs \<Longrightarrow> rowLoop a b n i [0..<p] [] = Inr (h i)) \<Longrightarrow>
   matLoop a b n p idxs res = Inr (res @ map (\<lambda>i. Arr (h i)) idxs)"
  by (induction idxs arbitrary: res) simp_all

lemma matLoop_product:
  assumes "getShape a [] = [m, n]" and "getShape b [] = [n, p]"
    and "numericRows a" and "numericRows b"
  shows "matLoop a b n p [0..<m] [] = Inr (matrixProduct a b m n p)"
proof -
  have s: "sumLoop a b i j [0..<n] 0 = Inr (\<Sum>k\<leftarrow>[0..<n]. entry a i k * entry b k j)"
    if "i < m" "j < p" for i j
    using sumLoop_sum [of "[0..<n]" a i "\<lambda>k. entry a i k" b j "\<lambda>k. entry b k j" 0]
      matrix_cell [OF assms(1,3) that(1)] matrix_cell [OF assms(2,4) _ that(2)]
    by simp
  have r: "rowLoop a b n i [0..<p] []
      = Inr (map (\<lambda>j. Num (\<Sum>k\<leftarrow>[0..<n]. entry a i k * entry b k j)) [0..<p])"
    if "i < m" for i
    using rowLoop_row [of "[0..<p]" a b i n "\<lambda>j. \<Sum>k\<leftarrow>[0..<n]. entry a i k * entry b k j" "[]"]
      s [OF that]
    by simp
  show ?thesis
    using matLoop_rows [of "[0..<m]" a b n p
        "\<lambda>i. map (\<lambda>j. Num (\<Sum>k\<leftarrow>[0..<n]. entry a i k * entry b k j)) [0..<p]" "[]"] r
    by (simp add: matrixProduct_def)
qed

lemma dot_product_sum:
  "(\<Sum>k\<leftarrow>[0..<n]. entry a i k * entry b k j) = (\<Sum>k<n. entry a i k * entry b k j)"
  by (simp add: interv_sum_list_conv_sum_set_nat lessThan_atLeast0)

text \<open>
  C2. On two operands \<open>b\<close> (top) and \<open>a\<close> of inferred shapes \<open>[m, n]\<close> and \<open>[n, p]\<close>
  whose rows hold Numbers only, \<open>matmul\<close> pushes the one \<open>m \<times> p\<close> array of the sums
  over \<open>k\<close> of \<open>a[i][k] * b[k][j]\<close>. When an operand is not of rank 2, or the inner
  dimensions differ, or a leaf is not a Number, it writes one diagnostic line and pushes
  nothing.
\<close>

theorem matmul_spec:
  assumes "stack st = b # a # s"
  shows "(getShape a [] = [m, n] \<and> getShape b [] = [n, p] \<and> numericRows a \<and> numericRows b \<longrightarrow>
          matmul st = Inr (st\<lparr>stack := matrixProduct a b m n p # s\<rparr>))
       \<and> (length (getShape a []) \<noteq> 2 \<or> length (getShape b []) \<noteq> 2
            \<or> getShape a [] ! 1 \<noteq> getShape b [] ! 0 \<or> \<not> numericRows a \<or> \<not> numericRows b \<longrightarrow>
          (\<exists>line. matmul st = Inr (st\<lparr>stack := s, cerr := cerr st @ [line]\<rparr>)))"
proof (intro conjI impI)
  assume "getShape a [] = [m, n] \<and> getShape b [] = [n, p] \<and> numericRows a \<and> numericRows b"
  then have sh: "getShape a [] = [m, n]" "getShape b [] = [n, p]"
    and num: "numericRows a" "numericRows b"
    by simp_all
  from num have "checkRows a = None" "checkRows b = None"
    by (simp_all add: checkRows_numeric)
  with assms sh matLoop_product [OF sh num]
  show "matmul st = Inr (st\<lparr>stack := matrixProduct a b m n p # s\<rparr>)"
    by (simp add: matmul_def push_def)
next
  assume bad: "length (getShape a []) \<noteq> 2 \<or> length (getShape b []) \<noteq> 2
      \<or> getShape a [] ! 1 \<noteq> getShape b [] ! 0 \<or> \<not> numericRows a \<or> \<not> numericRows b"
  have e: "\<exists>line. matmul st = Inr (st\<lparr>stack := s, cerr := cerr st @ [line]\<rparr>)"
    if "matmul st = Inr (error msg (st\<lparr>stack := s\<rparr>))" for msg
    unfolding that by (simp add: error_def, rule exI, rule refl)
  show "\<exists>line. matmul st = Inr (st\<lparr>stack := s, cerr := cerr st @ [line]\<rparr>)"
  proof (cases "length (getShape a []) \<noteq> 2 \<or> length (getShape b []) \<noteq> 2")
    case True
    with assms have "matmul st = Inr (error ''Error: matmul requires 2D arrays'' (st\<lparr>stack := s\<rparr>))"
      by (simp add: matmul_def)
    then show ?thesis by (rule e)
  next
    case rank: False
    show ?thesis
    proof (cases "getShape a [] ! 1 \<noteq> getShape b [] ! 0")
      case True
      with assms rank
      have "matmul st = Inr (error ''Error: Incompatible dimensions for matmul'' (st\<lparr>stack := s\<rparr>))"
        by (simp add: matmul_def)
      then show ?thesis by (rule e)
    next
      case inner: False
      show ?thesis
      proof (cases "checkRows a")
        case (Some msg)
        with assms rank inner have "matmul st = Inr (error msg (st\<lparr>stack := s\<rparr>))"
          by (simp add: matmul_def)
        then show ?thesis by (rule e)
      next
        case None
        with bad rank inner obtain msg where "checkRows b = Some msg"
          by (auto simp: checkRows_numeric [symmetric])
        with None assms rank inner have "matmul st = Inr (error msg (st\<lparr>stack := s\<rparr>))"
          by (simp add: matmul_def)
        then show ?thesis by (rule e)
      qed
    qed
  qed
qed

theorem matmul_spec_witness:
  "getShape [Arr [Num 1, Num 2], Arr [Num 3, Num 4]] [] = [2, 2]
   \<and> getShape [Arr [Num 5, Num 6], Arr [Num 7, Num 8]] [] = [2, 2]
   \<and> matmul \<lparr>stack = [[Arr [Num 5, Num 6], Arr [Num 7, Num 8]], [Arr [Num 1, Num 2], Arr [Num 3, Num 4]]],
        functions = Map.empty, cerr = [], cout = []\<rparr>
     = Inr \<lparr>stack = [[Arr [Num 19, Num 22], Arr [Num 43, Num 50]]],
        functions = Map.empty, cerr = [], cout = []\<rparr>
   \<and> (\<exists>line. matmul \<lparr>stack = [[Arr [Num 5, Num 6], Arr [Num 7, Num 8]], [Arr [Num 1, Num 2, Num 3]]],
        functions = Map.empty, cerr = [], cout = []\<rparr>
     = Inr \<lparr>stack = [], functions = Map.empty, cerr = [line], cout = []\<rparr>)"
  using matmul_spec [where st = "\<lparr>stack = [[Arr [Num 5, Num 6], Arr [Num 7, Num 8]], [Arr [Num 1, Num 2], Arr [Num 3, Num 4]]],
        functions = Map.empty, cerr = [], cout = []\<rparr>"
      and b = "[Arr [Num 5, Num 6], Arr [Num 7, Num 8]]" and a = "[Arr [Num 1, Num 2], Arr [Num 3, Num 4]]"
      and s = "[]" and m = 2 and n = 2 and p = 2]
    matmul_spec [where st = "\<lparr>stack = [[Arr [Num 5, Num 6], Arr [Num 7, Num 8]], [Arr [Num 1, Num 2, Num 3]]],
        functions = Map.empty, cerr = [], cout = []\<rparr>"
      and b = "[Arr [Num 5, Num 6], Arr [Num 7, Num 8]]" and a = "[Arr [Num 1, Num 2, Num 3]]"
      and s = "[]" and m = 2 and n = 2 and p = 2]
  by (simp add: numericRows_def matrixProduct_def entry_def upt_rec)

subsection \<open>reshape\<close>

declare buildArray.simps [simp del]

lemma copyLoop_take:
  "dataIdx + k \<le> length data \<Longrightarrow>
   copyLoop data k result dataIdx = (result @ take k (drop dataIdx data), dataIdx + k)"
proof (induction k arbitrary: result dataIdx)
  case 0
  show ?case by simp
next
  case (Suc k)
  then have lt: "dataIdx < length data" by simp
  have "copyLoop data (Suc k) result dataIdx = copyLoop data k (result @ [data ! dataIdx]) (dataIdx + 1)"
    using lt by simp
  also have "\<dots> = ((result @ [data ! dataIdx]) @ take k (drop (dataIdx + 1) data), dataIdx + 1 + k)"
    using Suc.prems by (intro Suc.IH) simp
  also have "(result @ [data ! dataIdx]) @ take k (drop (dataIdx + 1) data)
      = result @ take (Suc k) (drop dataIdx data)"
    using Cons_nth_drop_Suc [OF lt, symmetric] by simp
  finally show ?case by simp
qed

lemma buildLoop_map:
  "(\<And>i. i < k \<Longrightarrow> rec (dataIdx + i * w) = Inr (f (dataIdx + i * w), dataIdx + i * w + w)) \<Longrightarrow>
   buildLoop rec k result dataIdx
     = Inr (result @ map (\<lambda>i. Arr (f (dataIdx + i * w))) [0..<k], dataIdx + k * w)"
proof (induction k arbitrary: result dataIdx)
  case 0
  show ?case by simp
next
  case (Suc k)
  from Suc.prems [of 0] have r0: "rec dataIdx = Inr (f dataIdx, dataIdx + w)" by simp
  have step: "\<And>i. i < k \<Longrightarrow>
      rec ((dataIdx + w) + i * w) = Inr (f ((dataIdx + w) + i * w), (dataIdx + w) + i * w + w)"
    using Suc.prems [of "Suc _"] by (simp add: ac_simps)
  have "buildLoop rec (Suc k) result dataIdx = buildLoop rec k (result @ [Arr (f dataIdx)]) (dataIdx + w)"
    using r0 by simp
  also have "\<dots> = Inr ((result @ [Arr (f dataIdx)]) @ map (\<lambda>i. Arr (f ((dataIdx + w) + i * w))) [0..<k],
      (dataIdx + w) + k * w)"
    by (rule Suc.IH) (rule step)
  also have "(result @ [Arr (f dataIdx)]) @ map (\<lambda>i. Arr (f ((dataIdx + w) + i * w))) [0..<k]
      = result @ map (\<lambda>i. Arr (f (dataIdx + i * w))) [0..<Suc k]"
    by (simp add: map_upt_Suc ac_simps del: upt_Suc)
  finally show ?case by (simp add: ac_simps)
qed
lemma buildArray_rowMajor:
  "dimIdx < length dims \<Longrightarrow> dataIdx + prod_list (drop dimIdx dims) \<le> length data \<Longrightarrow>
   buildArray data dimIdx dims dataIdx
     = Inr (rowMajor (drop dimIdx dims) (drop dataIdx data), dataIdx + prod_list (drop dimIdx dims))"
proof (induction data dimIdx dims dataIdx rule: buildArray.induct)
  case (1 data dimIdx dims dataIdx)
  from "1.prems"(1) have d: "drop dimIdx dims = dims ! dimIdx # drop (Suc dimIdx) dims"
    by (simp add: Cons_nth_drop_Suc)
  show ?case
  proof (cases "dimIdx = length dims - 1")
    case True
    with "1.prems"(1) have last: "drop (Suc dimIdx) dims = []" by simp
    have "buildArray data dimIdx dims dataIdx = Inr (copyLoop data (dims ! dimIdx) [] dataIdx)"
      using True "1.prems"(1) by (subst buildArray.simps) simp
    also have "copyLoop data (dims ! dimIdx) [] dataIdx
        = ([] @ take (dims ! dimIdx) (drop dataIdx data), dataIdx + dims ! dimIdx)"
      using "1.prems"(2) by (intro copyLoop_take) (simp add: d last)
    finally show ?thesis by (simp add: d last)
  next
    case False
    with "1.prems"(1) have next_lt: "Suc dimIdx < length dims" by simp
    then obtain d' ds' where rest: "drop (Suc dimIdx) dims = d' # ds'"
      by (cases "drop (Suc dimIdx) dims") auto
    let ?w = "prod_list (drop (Suc dimIdx) dims)"
    let ?f = "\<lambda>idx. rowMajor (drop (Suc dimIdx) dims) (drop idx data)"
    have sub: "buildArray data (dimIdx + 1) dims (dataIdx + i * ?w)
        = Inr (?f (dataIdx + i * ?w), dataIdx + i * ?w + ?w)"
      if "i < dims ! dimIdx" for i
    proof -
      from that have "Suc i * ?w \<le> dims ! dimIdx * ?w" by (intro mult_le_mono1) simp
      with "1.prems"(2) have "dataIdx + i * ?w + ?w \<le> length data"
        by (simp add: d)
      with "1.IH" [of "dataIdx + i * ?w"] False "1.prems"(1) next_lt show ?thesis
        by simp
    qed
    have "buildArray data dimIdx dims dataIdx
        = buildLoop (\<lambda>idx. buildArray data (dimIdx + 1) dims idx) (dims ! dimIdx) [] dataIdx"
      using False "1.prems"(1) by (subst buildArray.simps) simp
    also have "\<dots> = Inr ([] @ map (\<lambda>i. Arr (?f (dataIdx + i * ?w))) [0..<dims ! dimIdx],
        dataIdx + dims ! dimIdx * ?w)"
      by (rule buildLoop_map) (rule sub)
    finally show ?thesis by (simp add: d rest add.commute)
  qed
qed
lemma posInt_cast:
  "posInt e \<Longrightarrow> dimOf e \<le> SIZE_MAX \<Longrightarrow>
   \<exists>v. e = Num v \<and> \<not> (v \<le> 0 \<or> real_of_int \<lfloor>v\<rfloor> \<noteq> v) \<and> static_cast_size_t v = Inr (dimOf e)"
  by (cases e) (auto simp: static_cast_size_t_def truncate_def dimOf_def)

lemma posInt_positive: "posInt e \<Longrightarrow> 0 < dimOf e"
  by (cases e) (auto simp: dimOf_def)

lemma posInt_Num: "posInt e \<Longrightarrow> Num (real (dimOf e)) = e"
proof (cases e)
  case (Num v)
  assume "posInt e"
  with Num have "0 < v" "real_of_int \<lfloor>v\<rfloor> = v" by simp_all
  then have "real (nat \<lfloor>v\<rfloor>) = v" by (smt (verit) of_nat_nat zero_le_floor)
  with Num show ?thesis by (simp add: dimOf_def)
qed simp_all

lemma shapeLoop_dims:
  "(\<And>e. e \<in> set shape \<Longrightarrow> posInt e \<and> dimOf e \<le> SIZE_MAX) \<Longrightarrow>
   shapeLoop shape dims total_size
     = Inr (Inr (dims @ map dimOf shape,
         if shape = [] then total_size
         else (total_size * prod_list (map dimOf shape)) mod (SIZE_MAX + 1)))"
proof (induction shape arbitrary: dims total_size)
  case Nil
  show ?case by simp
next
  case (Cons e shape)
  from posInt_cast Cons.prems [of e] obtain v where v: "e = Num v"
    "\<not> (v \<le> 0 \<or> real_of_int \<lfloor>v\<rfloor> \<noteq> v)" "static_cast_size_t v = Inr (dimOf e)"
    by auto
  have "shapeLoop (e # shape) dims total_size
      = shapeLoop shape (dims @ [dimOf e]) ((total_size * dimOf e) mod (SIZE_MAX + 1))"
    using v by simp
  also have "\<dots> = Inr (Inr ((dims @ [dimOf e]) @ map dimOf shape,
         if shape = [] then (total_size * dimOf e) mod (SIZE_MAX + 1)
         else ((total_size * dimOf e) mod (SIZE_MAX + 1) * prod_list (map dimOf shape)) mod (SIZE_MAX + 1)))"
    by (rule Cons.IH) (simp add: Cons.prems)
  finally show ?case
    by (simp add: mod_mult_left_eq mult.assoc)
qed

lemma shapeLoop_refuses:
  "(\<And>e. e \<in> set shape \<Longrightarrow> posInt e \<Longrightarrow> dimOf e \<le> SIZE_MAX) \<Longrightarrow>
   \<exists>e\<in>set shape. \<not> posInt e \<Longrightarrow>
   \<exists>msg. shapeLoop shape dims total_size = Inr (Inl msg)"
proof (induction shape arbitrary: dims total_size)
  case Nil
  then show ?case by simp
next
  case (Cons e shape)
  show ?case
  proof (cases "posInt e")
    case True
    with posInt_cast Cons.prems(1) [of e] obtain v where v: "e = Num v"
      "\<not> (v \<le> 0 \<or> real_of_int \<lfloor>v\<rfloor> \<noteq> v)" "static_cast_size_t v = Inr (dimOf e)"
      by auto
    from True Cons.prems(2) have "\<exists>e\<in>set shape. \<not> posInt e" by auto
    with Cons.IH [of "dims @ [dimOf e]" "(total_size * dimOf e) mod (SIZE_MAX + 1)"] Cons.prems(1)
    have "\<exists>msg. shapeLoop shape (dims @ [dimOf e]) ((total_size * dimOf e) mod (SIZE_MAX + 1))
        = Inr (Inl msg)"
      by simp
    then show ?thesis using v by simp
  next
    case False
    then show ?thesis by (cases e) auto
  qed
qed

lemma dim_le_prod:
  "(\<And>d. d \<in> set ds \<Longrightarrow> 0 < d) \<Longrightarrow> d \<in> set ds \<Longrightarrow> (d :: nat) \<le> prod_list ds"
proof (induction ds)
  case Nil
  then show ?case by simp
next
  case (Cons x ds)
  have "0 \<notin> set ds" using Cons.prems(1) [of 0] by auto
  then have pos: "0 < prod_list ds" using prod_list_zero_iff [of ds] by auto
  have x: "0 < x" using Cons.prems(1) by simp
  show ?case
  proof (cases "d = x")
    case True
    with pos show ?thesis by simp
  next
    case False
    with Cons have "d \<le> prod_list ds" by simp
    with x show ?thesis by (simp add: trans_le_add1 mult_eq_if)
  qed
qed

lemma shapeLoop_product:
  assumes "\<And>e. e \<in> set shape \<Longrightarrow> posInt e" and "prod_list (map dimOf shape) \<le> SIZE_MAX"
    and "shape \<noteq> []"
  shows "shapeLoop shape [] 1 = Inr (Inr (map dimOf shape, prod_list (map dimOf shape)))"
proof -
  have "dimOf e \<le> SIZE_MAX" if "e \<in> set shape" for e
  proof -
    have "dimOf e \<le> prod_list (map dimOf shape)"
      using that assms(1) by (intro dim_le_prod) (auto simp: posInt_positive)
    with assms(2) show ?thesis by simp
  qed
  with assms(1) have "\<And>e. e \<in> set shape \<Longrightarrow> posInt e \<and> dimOf e \<le> SIZE_MAX" by simp
  from shapeLoop_dims [OF this, of shape "[]" 1] assms(2,3) show ?thesis by simp
qed
lemma reshape_refused:
  "reshape st = Inr (error msg (st\<lparr>stack := s\<rparr>)) \<Longrightarrow>
   \<exists>line. reshape st = Inr (st\<lparr>stack := s, cerr := cerr st @ [line]\<rparr>)"
  by (simp add: error_def, rule exI, rule refl)

lemma reshape_builds:
  assumes "stack st = shape # data # s" and "shape \<noteq> []"
    and "\<And>e. e \<in> set shape \<Longrightarrow> posInt e"
    and "prod_list (map dimOf shape) = length data" and "length data \<le> SIZE_MAX"
  shows "reshape st = Inr (st\<lparr>stack := rowMajor (map dimOf shape) data # s\<rparr>)"
proof -
  from assms(4,5) have "prod_list (map dimOf shape) \<le> SIZE_MAX" by simp
  from shapeLoop_product [OF assms(3) this assms(2)]
  have sl: "shapeLoop shape [] 1 = Inr (Inr (map dimOf shape, prod_list (map dimOf shape)))" .
  from assms(2) have "0 < length (map dimOf shape)" by simp
  from buildArray_rowMajor [OF this, of 0 data] assms(4)
  have "buildArray data 0 (map dimOf shape) 0
      = Inr (rowMajor (map dimOf shape) data, prod_list (map dimOf shape))"
    by simp
  with assms(1,2,4) sl show ?thesis by (simp add: reshape_def push_def)
qed

text \<open>
  The claim C3 as written has no case for an empty shape array: none of its elements
  fails and the product of no dimensions is 1, the length of the data here, so an array
  is promised. \<open>reshape\<close> refuses the empty shape.
\<close>

theorem reshape_empty_shape_counterexample:
  "reshape \<lparr>stack = [[], [Num 7]], functions = Map.empty, cerr = [], cout = []\<rparr>
     = Inr \<lparr>stack = [], functions = Map.empty,
         cerr = [''Error: reshape requires a non-empty shape array''], cout = []\<rparr>"
  by (simp add: reshape_def error_def)

text \<open>
  C3, amended. \<open>reshape\<close> pops the shape array (top) and then the data array. It writes
  one diagnostic line and pushes nothing when the shape array is empty, when one of its
  elements is not a positive-integer Number, and when the product of the dimensions is
  not the length of the data array; these for dimensions and a product that fit
  \<^verbatim>\<open>size_t\<close>. When the shape is not empty, its elements are positive integers and their
  product is the length of the data array, it pushes the one array \<open>rowMajor\<close> of the
  specification.
\<close>

theorem reshape_spec:
  assumes "stack st = shape # data # s"
  shows "(shape = []
          \<or> ((\<exists>e\<in>set shape. \<not> posInt e) \<and> (\<forall>e\<in>set shape. posInt e \<longrightarrow> dimOf e \<le> SIZE_MAX))
          \<or> ((\<forall>e\<in>set shape. posInt e) \<and> prod_list (map dimOf shape) \<le> SIZE_MAX
              \<and> prod_list (map dimOf shape) \<noteq> length data) \<longrightarrow>
          (\<exists>line. reshape st = Inr (st\<lparr>stack := s, cerr := cerr st @ [line]\<rparr>)))
       \<and> (shape \<noteq> [] \<and> (\<forall>e\<in>set shape. posInt e)
            \<and> prod_list (map dimOf shape) = length data \<and> length data \<le> SIZE_MAX \<longrightarrow>
          reshape st = Inr (st\<lparr>stack := rowMajor (map dimOf shape) data # s\<rparr>))"
proof (intro conjI impI)
  assume "shape \<noteq> [] \<and> (\<forall>e\<in>set shape. posInt e)
      \<and> prod_list (map dimOf shape) = length data \<and> length data \<le> SIZE_MAX"
  then show "reshape st = Inr (st\<lparr>stack := rowMajor (map dimOf shape) data # s\<rparr>)"
    using reshape_builds [OF assms] by blast
next
  assume bad: "shape = []
      \<or> ((\<exists>e\<in>set shape. \<not> posInt e) \<and> (\<forall>e\<in>set shape. posInt e \<longrightarrow> dimOf e \<le> SIZE_MAX))
      \<or> ((\<forall>e\<in>set shape. posInt e) \<and> prod_list (map dimOf shape) \<le> SIZE_MAX
          \<and> prod_list (map dimOf shape) \<noteq> length data)"
  show "\<exists>line. reshape st = Inr (st\<lparr>stack := s, cerr := cerr st @ [line]\<rparr>)"
  proof (cases "shape = []")
    case True
    with assms
    have "reshape st = Inr (error ''Error: reshape requires a non-empty shape array'' (st\<lparr>stack := s\<rparr>))"
      by (simp add: reshape_def)
    then show ?thesis by (rule reshape_refused)
  next
    case ne: False
    show ?thesis
    proof (cases "\<forall>e\<in>set shape. posInt e")
      case False
      with bad ne have "\<exists>e\<in>set shape. \<not> posInt e"
        and "\<And>e. e \<in> set shape \<Longrightarrow> posInt e \<Longrightarrow> dimOf e \<le> SIZE_MAX"
        by blast+
      from shapeLoop_refuses [OF this(2) this(1), where dims = "[]" and total_size = 1] obtain msg
        where "shapeLoop shape [] 1 = Inr (Inl msg)"
        by blast
      with assms ne have "reshape st = Inr (error msg (st\<lparr>stack := s\<rparr>))"
        by (simp add: reshape_def)
      then show ?thesis by (rule reshape_refused)
    next
      case True
      with bad ne have p: "prod_list (map dimOf shape) \<le> SIZE_MAX"
        "prod_list (map dimOf shape) \<noteq> length data"
        by blast+
      from True have "\<And>e. e \<in> set shape \<Longrightarrow> posInt e" by blast
      from shapeLoop_product [OF this p(1) ne] assms ne p(2)
      have "reshape st
          = Inr (error ''Error: Data size does not match shape dimensions'' (st\<lparr>stack := s\<rparr>))"
        by (simp add: reshape_def)
      then show ?thesis by (rule reshape_refused)
    qed
  qed
qed

theorem reshape_spec_witness:
  "reshape \<lparr>stack = [[Num 2, Num 3], [Num 1, Num 2, Num 3, Num 4, Num 5, Num 6]],
       functions = Map.empty, cerr = [], cout = []\<rparr>
     = Inr \<lparr>stack = [[Arr [Num 1, Num 2, Num 3], Arr [Num 4, Num 5, Num 6]]],
         functions = Map.empty, cerr = [], cout = []\<rparr>
   \<and> (\<exists>line. reshape \<lparr>stack = [[Num 2, Num 2], [Num 1, Num 2, Num 3]],
       functions = Map.empty, cerr = [], cout = []\<rparr>
     = Inr \<lparr>stack = [], functions = Map.empty, cerr = [line], cout = []\<rparr>)"
  using reshape_spec [where st = "\<lparr>stack = [[Num 2, Num 3], [Num 1, Num 2, Num 3, Num 4, Num 5, Num 6]],
       functions = Map.empty, cerr = [], cout = []\<rparr>"
      and shape = "[Num 2, Num 3]" and data = "[Num 1, Num 2, Num 3, Num 4, Num 5, Num 6]" and s = "[]"]
    reshape_spec [where st = "\<lparr>stack = [[Num 2, Num 2], [Num 1, Num 2, Num 3]],
       functions = Map.empty, cerr = [], cout = []\<rparr>"
      and shape = "[Num 2, Num 2]" and data = "[Num 1, Num 2, Num 3]" and s = "[]"]
  by (simp add: dimOf_def SIZE_MAX_def upt_rec)
lemma length_rowMajor:
  "ds \<noteq> [] \<Longrightarrow> prod_list ds \<le> length data \<Longrightarrow> length (rowMajor ds data) = hd ds"
  by (cases "(ds, data)" rule: rowMajor.cases) auto

lemma getShape_flat:
  "x \<noteq> [] \<Longrightarrow> \<not> holds_Array (hd x) \<Longrightarrow> getShape x acc = acc @ [length x] \<and> \<not> nonUniform x"
  by (cases x; cases "hd x") auto

lemma rowMajor_shape:
  "ds \<noteq> [] \<Longrightarrow> (\<And>d. d \<in> set ds \<Longrightarrow> 0 < d) \<Longrightarrow> prod_list ds \<le> length data \<Longrightarrow>
   \<not> holds_Array (hd data) \<Longrightarrow>
   getShape (rowMajor ds data) [] = ds \<and> \<not> nonUniform (rowMajor ds data)"
proof (induction ds)
  case Nil
  then show ?case by simp
next
  case (Cons d ds)
  have d: "0 < d" using Cons.prems(2) by simp
  show ?case
  proof (cases ds)
    case Nil
    from Cons.prems(3) Nil d have ne: "take d data \<noteq> []" by auto
    with d have "hd (take d data) = hd data" by (cases data) auto
    with Cons.prems(4) have "\<not> holds_Array (hd (take d data))" by simp
    from getShape_flat [OF ne this, of "[]"] Cons.prems(3) Nil show ?thesis
      by simp
  next
    case (Cons d' ds')
    let ?P = "prod_list ds"
    let ?f = "\<lambda>i. Arr (rowMajor ds (drop (i * ?P) data))"
    have P: "?P \<le> d * ?P" using d by simp
    have "d * ?P \<le> length data" using Cons.prems(3) by simp
    with P have Ple: "?P \<le> length data" by (rule order_trans)
    have len: "length (rowMajor ds (drop (i * ?P) data)) = d'" if "i < d" for i
    proof -
      from that have "Suc i * ?P \<le> d * ?P" by (intro mult_le_mono1) simp
      with Cons.prems(3) have "?P \<le> length (drop (i * ?P) data)" by simp
      from length_rowMajor [OF _ this] Cons show ?thesis by simp
    qed
    have rm: "rowMajor (d # ds) data = ?f 0 # map ?f [1..<d]"
      using d Cons by (simp add: upt_rec [of 0])
    have same: "list_all (sameSize (length (rowMajor ds data))) (map ?f [1..<d])"
      using len len [OF d] by (simp add: list_all_iff)
    have IH: "getShape (rowMajor ds data) [] = ds \<and> \<not> nonUniform (rowMajor ds data)"
      using Cons.IH Cons Cons.prems(2,4) Ple by simp
    have "getShape (rowMajor (d # ds) data) [] = getShape (rowMajor ds data) [Suc (length (map ?f [1..<d]))]"
      unfolding rm using same by simp
    also have "\<dots> = [Suc (length (map ?f [1..<d]))] @ getShape (rowMajor ds data) []"
      by (rule getShape_acc)
    also have "\<dots> = d # ds" using IH d by simp
    finally have "getShape (rowMajor (d # ds) data) [] = d # ds" .
    moreover have "\<not> nonUniform (rowMajor (d # ds) data)"
      unfolding rm using same IH by simp
    ultimately show ?thesis by simp
  qed
qed

text \<open>
  The claim C4 as written is about every data array and every shape of positive integers
  with the right product. For the shape \<open>[1]\<close> the reshaped array is a scalar, of which
  \<open>dim\<close> gives the empty array; and where the first element of the data is itself an
  Array, \<open>dim\<close> descends into it: the data \<open>[[1, 2], [3, 4]]\<close> reshaped by \<open>[2]\<close> has the
  dimensions \<open>[2, 2]\<close>.
\<close>

theorem reshape_dim_counterexample:
  "reshape \<lparr>stack = [[Num 1], [Num 7]], functions = Map.empty, cerr = [], cout = []\<rparr>
     = Inr \<lparr>stack = [[Num 7]], functions = Map.empty, cerr = [], cout = []\<rparr>
   \<and> dim_builtin \<lparr>stack = [[Num 7]], functions = Map.empty, cerr = [], cout = []\<rparr>
     = Inr \<lparr>stack = [[]], functions = Map.empty, cerr = [], cout = []\<rparr>
   \<and> reshape \<lparr>stack = [[Num 2], [Arr [Num 1, Num 2], Arr [Num 3, Num 4]]], functions = Map.empty,
       cerr = [], cout = []\<rparr>
     = Inr \<lparr>stack = [[Arr [Num 1, Num 2], Arr [Num 3, Num 4]]], functions = Map.empty,
         cerr = [], cout = []\<rparr>
   \<and> dim_builtin \<lparr>stack = [[Arr [Num 1, Num 2], Arr [Num 3, Num 4]]], functions = Map.empty,
       cerr = [], cout = []\<rparr>
     = Inr \<lparr>stack = [[Num 2, Num 2]], functions = Map.empty, cerr = [], cout = []\<rparr>"
proof -
  have "buildArray [Num 7] 0 [1] 0 = Inr ([Num 7], 1)"
    by (subst buildArray.simps) simp
  moreover have "buildArray [Arr [Num 1, Num 2], Arr [Num 3, Num 4]] 0 [2] 0
      = Inr ([Arr [Num 1, Num 2], Arr [Num 3, Num 4]], 2)"
    by (subst buildArray.simps) (simp add: numeral_2_eq_2)
  ultimately show ?thesis
    by (simp add: reshape_def static_cast_size_t_def truncate_def SIZE_MAX_def push_def
        dim_builtin_def)
qed

text \<open>
  C4, amended. For a data array whose first element is not an Array and a shape of
  positive integers other than \<open>[1]\<close> whose product is the length of the data array,
  \<open>reshape\<close> and then \<open>dim\<close> leave the shape argument on the stack in place of the two
  operands.
\<close>

theorem reshape_dim_roundtrip:
  assumes "stack st = shape # data # s" and "shape \<noteq> []" and "shape \<noteq> [Num 1]"
    and "\<forall>e\<in>set shape. posInt e"
    and "prod_list (map dimOf shape) = length data" and "length data \<le> SIZE_MAX"
    and "\<not> holds_Array (hd data)"
  shows "\<exists>st1. reshape st = Inr st1 \<and> dim_builtin st1 = Inr (st\<lparr>stack := shape # s\<rparr>)"
proof -
  let ?ds = "map dimOf shape"
  let ?r = "rowMajor ?ds data"
  let ?st1 = "st\<lparr>stack := ?r # s\<rparr>"
  have r: "reshape st = Inr ?st1"
    using reshape_builds [OF assms(1,2) _ assms(5,6)] assms(4) by blast
  have pos: "\<And>d. d \<in> set ?ds \<Longrightarrow> 0 < d"
    using assms(4) by (auto simp: posInt_positive)
  have sh: "getShape ?r [] = ?ds" "\<not> nonUniform ?r"
    using rowMajor_shape [of ?ds data] assms(2,5,7) pos by simp_all
  have numbers: "map (\<lambda>d. Num (real d)) ?ds = shape"
    using assms(4) by (simp add: map_idI posInt_Num)
  have ne: "data \<noteq> []"
  proof
    assume "data = []"
    with assms(5) have "prod_list ?ds = 0" by simp
    then have "0 \<in> set ?ds" using prod_list_zero_iff [of ?ds] by simp
    with pos show False by force
  qed
  have notscalar: "(length ?r = Suc 0 \<and> \<not> holds_Array (?r ! 0)) = False"
  proof (cases shape)
    case Nil
    with assms(2) show ?thesis by simp
  next
    case (Cons e es)
    show ?thesis
    proof (cases es)
      case Nil
      from assms(3,4) Cons Nil posInt_Num [of e] have "dimOf e \<noteq> 1" by auto
      with assms(5) Cons Nil show ?thesis by simp
    next
      case (Cons e' es')
      from pos \<open>shape = e # es\<close> have "0 < dimOf e" by simp
      then have "[0..<dimOf e] = 0 # [1..<dimOf e]" by (simp add: upt_rec)
      with \<open>shape = e # es\<close> Cons show ?thesis by simp
    qed
  qed
  have "dim_builtin ?st1 = Inr (?st1\<lparr>stack := map (\<lambda>d. Num (real d)) (getShape ?r []) # s\<rparr>)"
    using dim_on_uniform [of ?st1 ?r s, OF _ sh(2)] by (simp add: notscalar)
  with r sh(1) numbers show ?thesis by simp
qed

theorem reshape_dim_roundtrip_witness:
  "(\<exists>st1. reshape \<lparr>stack = [[Num 2, Num 2], [Num 1, Num 2, Num 3, Num 4]],
       functions = Map.empty, cerr = [], cout = []\<rparr> = Inr st1
     \<and> dim_builtin st1
       = Inr \<lparr>stack = [[Num 2, Num 2]], functions = Map.empty, cerr = [], cout = []\<rparr>)
   \<and> (\<exists>st1. reshape \<lparr>stack = [[Num 2], [Num 1, Arr [Num 2]]],
       functions = Map.empty, cerr = [], cout = []\<rparr> = Inr st1
     \<and> dim_builtin st1
       = Inr \<lparr>stack = [[Num 2]], functions = Map.empty, cerr = [], cout = []\<rparr>)"
  using reshape_dim_roundtrip [where st = "\<lparr>stack = [[Num 2, Num 2], [Num 1, Num 2, Num 3, Num 4]],
       functions = Map.empty, cerr = [], cout = []\<rparr>"
      and shape = "[Num 2, Num 2]" and data = "[Num 1, Num 2, Num 3, Num 4]" and s = "[]"]
    reshape_dim_roundtrip [where st = "\<lparr>stack = [[Num 2], [Num 1, Arr [Num 2]]],
       functions = Map.empty, cerr = [], cout = []\<rparr>"
      and shape = "[Num 2]" and data = "[Num 1, Arr [Num 2]]" and s = "[]"]
  by (simp add: dimOf_def SIZE_MAX_def)

text \<open>
  No padding and no truncation: the leaves of the array of the specification, from left
  to right, are the data.
\<close>

lemma concat_chunks:
  "concat (map (\<lambda>i. take w (drop (i * w) data)) [0..<d]) = take (d * w) data"
proof (induction d)
  case 0
  show ?case by simp
next
  case (Suc d)
  have "take (Suc d * w) data = take (d * w) data @ take w (drop (d * w) data)"
    using take_add [of "d * w" w data] by (simp add: add.commute)
  with Suc show ?case by simp
qed

lemma rowMajor_flatten:
  "ds \<noteq> [] \<Longrightarrow> prod_list ds \<le> length data \<Longrightarrow>
   flatten (length ds - 1) (rowMajor ds data) = take (prod_list ds) data"
proof (induction ds arbitrary: data)
  case Nil
  then show ?case by simp
next
  case (Cons d ds)
  show ?case
  proof (cases ds)
    case Nil
    then show ?thesis by simp
  next
    case (Cons d' ds')
    let ?P = "prod_list ds"
    have sub: "flatten (length ds - 1) (rowMajor ds (drop (i * ?P) data)) = take ?P (drop (i * ?P) data)"
      if "i < d" for i
    proof -
      from that have "Suc i * ?P \<le> d * ?P" by (intro mult_le_mono1) simp
      with Cons.prems(2) have "?P \<le> length (drop (i * ?P) data)" by simp
      from Cons.IH [OF _ this] Cons show ?thesis by simp
    qed
    have "flatten (length (d # ds) - 1) (rowMajor (d # ds) data)
        = concat (map (\<lambda>i. flatten (length ds - 1) (rowMajor ds (drop (i * ?P) data))) [0..<d])"
      using Cons by (simp add: comp_def)
    also have "\<dots> = concat (map (\<lambda>i. take ?P (drop (i * ?P) data)) [0..<d])"
      using sub by (intro arg_cong [where f = concat] map_cong) simp_all
    also have "\<dots> = take (d * ?P) data" by (rule concat_chunks)
    finally show ?thesis by simp
  qed
qed

lemma buildLoop_total:
  "(\<And>idx. \<exists>r i. rec idx = Inr (r, i)) \<Longrightarrow> \<exists>r i. buildLoop rec k result dataIdx = Inr (r, i)"
proof (induction k arbitrary: result dataIdx)
  case 0
  show ?case by simp
next
  case (Suc k)
  from Suc.prems [of dataIdx] obtain r i where "rec dataIdx = Inr (r, i)" by blast
  with Suc.IH [OF Suc.prems, of "result @ [Arr r]" i] show ?case by simp
qed

lemma buildArray_total:
  "dimIdx < length dims \<Longrightarrow> \<exists>r i. buildArray data dimIdx dims dataIdx = Inr (r, i)"
proof (induction data dimIdx dims dataIdx rule: buildArray.induct)
  case (1 data dimIdx dims dataIdx)
  show ?case
  proof (cases "dimIdx = length dims - 1")
    case True
    with "1.prems" show ?thesis
      by (subst buildArray.simps) (simp add: prod_eq_iff)
  next
    case False
    with "1.prems" have "Suc dimIdx < length dims" by simp
    with "1.IH" False "1.prems"
    have "\<And>idx. \<exists>r i. buildArray data (dimIdx + 1) dims idx = Inr (r, i)" by simp
    from buildLoop_total [of "\<lambda>idx. buildArray data (dimIdx + 1) dims idx", OF this]
    show ?thesis
      using False "1.prems" by (subst buildArray.simps) simp
  qed
qed

text \<open>
  Why the amended C3 keeps to dimensions whose product fits \<^verbatim>\<open>size_t\<close>: the product
  of \<open>2 ^ 32\<close> and \<open>2 ^ 32\<close> wraps around to 0, the length of the empty data array, and
  no error is reported.
\<close>

lemma reshape_product_wraps:
  "\<exists>result. reshape \<lparr>stack = [[Num 4294967296, Num 4294967296], []], functions = Map.empty,
       cerr = [], cout = []\<rparr>
     = Inr \<lparr>stack = [result], functions = Map.empty, cerr = [], cout = []\<rparr>"
proof -
  obtain r i where "buildArray [] 0 [4294967296, 4294967296] 0 = Inr (r, i)"
    using buildArray_total [of 0 "[4294967296, 4294967296]" "[]" 0] by auto
  then show ?thesis
    by (simp add: reshape_def static_cast_size_t_def truncate_def SIZE_MAX_def push_def)
qed

subsection \<open>Word definitions\<close>

lemma applyBinaryOp_functions:
  "applyBinaryOp opName op st = Inr st' \<Longrightarrow> functions st' = functions st"
  by (auto simp: applyBinaryOp_def Let_def error_def push_def
      split: list.splits sum.splits if_splits prod.splits)

lemma getDims_functions: "getDims arr dims st = (ds, st') \<Longrightarrow> functions st' = functions st"
proof (induction arr dims st arbitrary: ds st' rule: getDims.induct)
  case (2 a0 rest dims st)
  then show ?case by (cases "list_all (sameSize (length a0)) rest") (auto simp: error_def push_def)
qed auto

lemma simple_functions:
  "cat st = Inr st' \<Longrightarrow> functions st' = functions st"
  "dot st = Inr st' \<Longrightarrow> functions st' = functions st"
  "clear st = Inr st' \<Longrightarrow> functions st' = functions st"
  "swap st = Inr st' \<Longrightarrow> functions st' = functions st"
  "dup st = Inr st' \<Longrightarrow> functions st' = functions st"
  by (auto simp: cat_def dot_def clear_def swap_def dup_def error_def push_def split: list.splits)

lemma range_functions: "range_builtin st = Inr st' \<Longrightarrow> functions st' = functions st"
  by (auto simp: range_builtin_def Let_def error_def push_def
      split: list.splits sum.splits if_splits)

lemma reshape_functions: "reshape st = Inr st' \<Longrightarrow> functions st' = functions st"
  by (auto simp: reshape_def Let_def error_def push_def
      split: list.splits sum.splits if_splits prod.splits)

lemma dim_functions: "dim_builtin st = Inr st' \<Longrightarrow> functions st' = functions st"
  by (auto simp: dim_builtin_def Let_def error_def push_def dest: getDims_functions
      split: list.splits if_splits prod.splits)

lemma matmul_functions: "matmul st = Inr st' \<Longrightarrow> functions st' = functions st"
  by (auto simp: matmul_def Let_def error_def push_def
      split: list.splits sum.splits if_splits option.splits)

lemma builtIns_functions:
  assumes "builtIns pow name = Some builtIn" and "builtIn st = Inr st'"
  shows "functions st' = functions st"
proof -
  note preserved = applyBinaryOp_functions simple_functions range_functions reshape_functions
      dim_functions matmul_functions
  from assms(1) have "(name, builtIn) \<in> set (builtInTable pow)"
    unfolding builtIns_def by (rule map_of_SomeD)
  then consider "builtIn = applyBinaryOp ''+'' (\<lambda>x y. x + y)"
    | "builtIn = applyBinaryOp ''-'' (\<lambda>x y. x - y)"
    | "builtIn = applyBinaryOp ''*'' (\<lambda>x y. x * y)"
    | "builtIn = applyBinaryOp ''/'' (\<lambda>x y. x / y)"
    | "builtIn = applyBinaryOp ''^'' (\<lambda>x y. pow x y)"
    | "builtIn = cat" | "builtIn = dot" | "builtIn = clear" | "builtIn = swap" | "builtIn = dup"
    | "builtIn = range_builtin" | "builtIn = reshape" | "builtIn = dim_builtin"
    | "builtIn = matmul"
    unfolding builtInTable_def set_simps insert_iff empty_iff prod.inject by argo
  then show ?thesis
    using assms(2) by cases (simp_all add: preserved)
qed

lemma dumpLoop_prints: "dumpLoop s temp out = (rev s @ temp, out @ map Printed s)"
  by (induction s arbitrary: temp out) simp_all

lemma restoreLoop_rev: "restoreLoop temp s = rev temp @ s"
  by (induction temp arbitrary: s) simp_all

lemma dump_prints:
  "dump st = st\<lparr>cout := cout st @ Line ''Stack:''
     # (if stack st = [] then [Line ''(empty)''] else map Printed (stack st))\<rparr>"
  by (simp add: dump_def Let_def dumpLoop_prints restoreLoop_rev)

lemma dumps_functions: "functions ((dump ^^ n) st) = functions st"
  by (induction n) (simp_all add: dump_prints)

lemma defining_collects:
  "'':end'' \<notin> set toks \<Longrightarrow>
   evalLoop parseArray pow depth isFunctionBody (toks @ rest) True funcName funcBody st
     = evalLoop parseArray pow depth isFunctionBody rest True funcName
         (funcBody @ filter (\<lambda>t. t \<noteq> '':dump'') toks)
         ((dump ^^ length (filter (\<lambda>t. t = '':dump'') toks)) st)"
proof (induction toks arbitrary: funcBody st)
  case Nil
  show ?case by simp
next
  case (Cons t toks)
  from Cons.prems have e: "t \<noteq> '':end''" "'':end'' \<notin> set toks" by auto
  show ?case
  proof (cases "t = '':dump''")
    case True
    then show ?thesis using Cons.IH [OF e(2), of funcBody "dump st"]
      by (simp add: funpow_swap1)
  next
    case False
    then show ?thesis using Cons.IH [OF e(2), of "funcBody @ [t]" st] e(1)
      by simp
  qed
qed

lemma isFunctionName_no_colon: "isFunctionName w \<Longrightarrow> w \<noteq> [] \<and> hd w \<noteq> CHR '':''"
  by (cases w) (auto simp: isFunctionName_def iswalnum_def split: if_splits)

lemma definition_stores:
  assumes "isFunctionName w" and "w \<noteq> ''dump''" and "'':end'' \<notin> set toks"
  shows "evalLoop parseArray pow depth False ((CHR '':'' # w) # toks @ '':end'' # rest) False funcName [] st
     = evalLoop parseArray pow depth False rest False w []
         (((dump ^^ length (filter (\<lambda>t. t = '':dump'') toks)) st)
            \<lparr>functions := (functions st)(w \<mapsto> filter (\<lambda>t. t \<noteq> '':dump'') toks)\<rparr>)"
proof -
  let ?n = "length (filter (\<lambda>t. t = '':dump'') toks)"
  from assms(1) have ne: "w \<noteq> []" using isFunctionName_no_colon by blast
  from assms(2) have nd: "CHR '':'' # w \<noteq> '':dump''" by simp
  have "evalLoop parseArray pow depth False ((CHR '':'' # w) # toks @ '':end'' # rest) False funcName [] st
      = evalLoop parseArray pow depth False (toks @ '':end'' # rest) True w [] st"
    using ne nd assms(1) by simp
  also have "\<dots> = evalLoop parseArray pow depth False ('':end'' # rest) True w
        ([] @ filter (\<lambda>t. t \<noteq> '':dump'') toks) ((dump ^^ ?n) st)"
    by (rule defining_collects) (rule assms(3))
  also have "\<dots> = evalLoop parseArray pow depth False rest False w []
         (((dump ^^ ?n) st)\<lparr>functions := (functions st)(w \<mapsto> filter (\<lambda>t. t \<noteq> '':dump'') toks)\<rparr>)"
    by (simp add: dumps_functions)
  finally show ?thesis .
qed

lemma thenRun_simps:
  "thenRun None k = None"
  "thenRun (Some (Inl f)) k = Some (Inl f)"
  "thenRun (Some (Inr st)) k = k st"
  by (simp_all add: thenRun_def)

lemma thenRun_return: "thenRun r (\<lambda>st. Some (Inr st)) = r"
  by (simp add: thenRun_def split: option.splits sum.splits)

lemma thenRun_cong:
  "(\<And>st. r = Some (Inr st) \<Longrightarrow> k st = k' st) \<Longrightarrow> thenRun r k = thenRun r k'"
  by (simp add: thenRun_def split: option.splits sum.splits)

lemma thenRun_assoc:
  "thenRun (thenRun r k) k' = thenRun r (\<lambda>st. thenRun (k st) k')"
  by (simp add: thenRun_def split: option.splits sum.splits)

lemma body_sequence:
  "evalLoop parseArray pow depth True (xs @ ys) False funcName funcBody st
     = thenRun (evalLoop parseArray pow depth True xs False funcName funcBody st)
         (\<lambda>st'. evalLoop parseArray pow depth True ys False funcName funcBody st')"
proof (induction xs arbitrary: st)
  case Nil
  show ?case by (simp add: thenRun_simps)
next
  case (Cons t xs)
  show ?case
  proof (cases "t = '':dump''")
    case True
    then show ?thesis using Cons.IH [of "dump st"] by simp
  next
    case False
    show ?thesis
    proof (cases "functions st t")
      case (Some body)
      show ?thesis
      proof (cases depth)
        case 0
        then show ?thesis using False Some by (simp add: thenRun_simps)
      next
        case (Suc d)
        show ?thesis
        proof (cases "evalLoop parseArray pow d True body False [] [] st")
          case None
          then show ?thesis using False Some Suc by (simp add: thenRun_simps)
        next
          case (Some r)
          show ?thesis
          proof (cases r)
            case (Inl f)
            then show ?thesis using False \<open>functions st t = Some body\<close> Suc Some
              by (simp add: thenRun_simps)
          next
            case (Inr st1)
            then show ?thesis using False \<open>functions st t = Some body\<close> Suc Some
                Cons.IH [of st1]
              by simp
          qed
        qed
      qed
    next
      case None
      show ?thesis
      proof (cases "builtIns pow t")
        case (Some builtIn)
        show ?thesis
        proof (cases "builtIn st")
          case (Inl f)
          then show ?thesis using False None Some by (simp add: thenRun_simps)
        next
          case (Inr st1)
          then show ?thesis using False None Some Cons.IH [of st1] by simp
        qed
      next
        case nb: None
        then show ?thesis using False None Cons.IH [of "push (parseArray t) st"] by simp
      qed
    qed
  qed
qed

lemma body_functions:
  "evalLoop parseArray pow depth True toks False funcName funcBody st = Some (Inr st') \<Longrightarrow>
   functions st' = functions st"
proof (induction depth arbitrary: toks funcName funcBody st st' rule: less_induct)
  case (less depth)
  note outer = less.IH
  from less.prems show ?case
  proof (induction toks arbitrary: st)
    case Nil
    then show ?case by simp
  next
    case (Cons t toks)
    show ?case
    proof (cases "t = '':dump''")
      case True
      with Cons.prems have "evalLoop parseArray pow depth True toks False funcName funcBody (dump st) = Some (Inr st')"
        by simp
      from Cons.IH [OF this] show ?thesis by (simp add: dump_prints)
    next
      case False
      show ?thesis
      proof (cases "functions st t")
        case (Some body)
        show ?thesis
        proof (cases depth)
          case 0
          then show ?thesis using False Some Cons.prems by simp
        next
          case (Suc d)
          from Cons.prems False Some Suc obtain st1 where
            b: "evalLoop parseArray pow d True body False [] [] st = Some (Inr st1)"
            and r: "evalLoop parseArray pow depth True toks False funcName funcBody st1 = Some (Inr st')"
            by (simp split: option.splits sum.splits)
          from outer [OF _ b] Suc have "functions st1 = functions st" by simp
          with Cons.IH [OF r] show ?thesis by simp
        qed
      next
        case None
        show ?thesis
        proof (cases "builtIns pow t")
          case (Some builtIn)
          from Cons.prems False None Some obtain st1 where
            b: "builtIn st = Inr st1"
            and r: "evalLoop parseArray pow depth True toks False funcName funcBody st1 = Some (Inr st')"
            by (simp split: sum.splits)
          from builtIns_functions [OF Some b] Cons.IH [OF r] show ?thesis by simp
        next
          case nb: None
          with Cons.prems False None
          have "evalLoop parseArray pow depth True toks False funcName funcBody (push (parseArray t) st) = Some (Inr st')"
            by simp
          from Cons.IH [OF this] show ?thesis by (simp add: push_def)
        qed
      qed
    qed
  qed
qed

lemma call_runs_body:
  assumes "functions st v = Some body" and "v \<noteq> '':dump''"
    and "isFunctionBody \<or> \<not> (length v > 1 \<and> hd v = CHR '':'')"
  shows "evalLoop parseArray pow (Suc d) isFunctionBody (v # rest) False funcName funcBody st
     = thenRun (evalLoop parseArray pow d True body False [] [] st)
         (\<lambda>st'. evalLoop parseArray pow (Suc d) isFunctionBody rest False funcName funcBody st')"
  using assms by (auto simp: thenRun_def)

text \<open>
  The claim C9 as written holds of a body without \<open>:dump\<close>. The test for \<open>:dump\<close> comes
  first in the loop, also while a definition is read: \<open>:w 1 :dump 2 :end\<close> prints the
  stack when it is defined and stores the body \<open>1 2\<close>.
\<close>

theorem definition_dump_counterexample:
  "evaluate (\<lambda>t. [Str t]) (powr) 0 ['':w'', ''1'', '':dump'', ''2'', '':end''] False
     \<lparr>stack = [], functions = Map.empty, cerr = [], cout = []\<rparr>
   = Some (Inr \<lparr>stack = [], functions = [''w'' \<mapsto> [''1'', ''2'']], cerr = [],
       cout = [Line ''Stack:'', Line ''(empty)'']\<rparr>)"
  by (simp add: evaluate_def isFunctionName_def iswalnum_def dump_def)

text \<open>
  C9, amended. A definition \<open>:w \<dots> :end\<close>, \<open>w\<close> a name other than \<open>dump\<close>, runs every
  \<open>:dump\<close> between the header and \<open>:end\<close> at once and stores the other tokens as they
  are, in their order, under the name \<open>w\<close> and in place of any earlier body of \<open>w\<close>. A
  word is looked up when it is invoked: calling after the definition another word \<open>v\<close>
  whose stored body refers to \<open>w\<close> at any place runs the tokens of the body of \<open>v\<close> before
  the reference, then the new tokens of \<open>w\<close>, then the tokens after the reference.
\<close>

theorem late_binding:
  assumes "isFunctionName w" and "w \<noteq> ''dump''" and "'':end'' \<notin> set tokens"
    and "functions st v = Some (pre @ w # post)" and "v \<noteq> w" and "v \<noteq> '':dump''"
    and "\<not> (length v > 1 \<and> hd v = CHR '':'')"
    and "body = filter (\<lambda>t. t \<noteq> '':dump'') tokens"
    and "st' = ((dump ^^ length (filter (\<lambda>t. t = '':dump'') tokens)) st)
           \<lparr>functions := (functions st)(w \<mapsto> body)\<rparr>"
  shows "evaluate parseArray pow depth ((CHR '':'' # w) # tokens @ ['':end'']) False st = Some (Inr st')
    \<and> evaluate parseArray pow (Suc (Suc d)) ((CHR '':'' # w) # tokens @ ['':end'', v]) False st
        = thenRun (evaluate parseArray pow (Suc d) pre True st')
            (\<lambda>st1. thenRun (evaluate parseArray pow d body True st1)
               (\<lambda>st2. evaluate parseArray pow (Suc d) post True st2))"
proof (rule conjI)
  show "evaluate parseArray pow depth ((CHR '':'' # w) # tokens @ ['':end'']) False st = Some (Inr st')"
    unfolding evaluate_def assms(8,9)
    using definition_stores [OF assms(1,2,3), of parseArray pow depth "[]" "[]" st]
    by simp
  have v: "functions st' v = Some (pre @ w # post)" using assms(4,5,9) by simp
  have w: "functions st' w = Some body" using assms(9) by simp
  from assms(1) have nd: "w \<noteq> '':dump''" using isFunctionName_no_colon [of w] by auto
  have "evaluate parseArray pow (Suc (Suc d)) ((CHR '':'' # w) # tokens @ ['':end'', v]) False st
      = evalLoop parseArray pow (Suc (Suc d)) False [v] False w [] st'"
    unfolding evaluate_def assms(8,9)
    using definition_stores [OF assms(1,2,3), of parseArray pow "Suc (Suc d)" "[v]" "[]" st]
    by simp
  also have "\<dots> = thenRun (evalLoop parseArray pow (Suc d) True (pre @ w # post) False [] [] st')
         (\<lambda>st''. evalLoop parseArray pow (Suc (Suc d)) False [] False w [] st'')"
    using assms(7) by (intro call_runs_body [OF v assms(6)]) simp
  also have "\<dots> = evalLoop parseArray pow (Suc d) True (pre @ w # post) False [] [] st'"
    by (simp add: thenRun_return)
  also have "\<dots> = thenRun (evalLoop parseArray pow (Suc d) True pre False [] [] st')
         (\<lambda>st1. evalLoop parseArray pow (Suc d) True (w # post) False [] [] st1)"
    by (rule body_sequence)
  also have "\<dots> = thenRun (evalLoop parseArray pow (Suc d) True pre False [] [] st')
         (\<lambda>st1. thenRun (evalLoop parseArray pow d True body False [] [] st1)
            (\<lambda>st2. evalLoop parseArray pow (Suc d) True post False [] [] st2))"
  proof (rule thenRun_cong)
    fix st1
    assume "evalLoop parseArray pow (Suc d) True pre False [] [] st' = Some (Inr st1)"
    then have "functions st1 = functions st'" by (rule body_functions)
    with w have "functions st1 w = Some body" by simp
    then show "evalLoop parseArray pow (Suc d) True (w # post) False [] [] st1
        = thenRun (evalLoop parseArray pow d True body False [] [] st1)
            (\<lambda>st2. evalLoop parseArray pow (Suc d) True post False [] [] st2)"
      using nd by (rule call_runs_body) simp
  qed
  finally show "evaluate parseArray pow (Suc (Suc d)) ((CHR '':'' # w) # tokens @ ['':end'', v]) False st
        = thenRun (evaluate parseArray pow (Suc d) pre True st')
            (\<lambda>st1. thenRun (evaluate parseArray pow d body True st1)
               (\<lambda>st2. evaluate parseArray pow (Suc d) post True st2))"
    by (simp add: evaluate_def)
qed

theorem late_binding_witness:
  "evaluate (\<lambda>t. [Str t]) (powr) (Suc (Suc 0)) [''quad''] False
     \<lparr>stack = [[Num 3]],
      functions = [''quad'' \<mapsto> [''double'', ''double''], ''double'' \<mapsto> [''dup'', ''+'']],
      cerr = [], cout = []\<rparr>
   = Some (Inr \<lparr>stack = [[Num 12]],
      functions = [''quad'' \<mapsto> [''double'', ''double''], ''double'' \<mapsto> [''dup'', ''+'']],
      cerr = [], cout = []\<rparr>)
   \<and> evaluate (\<lambda>t. [Str t]) (powr) (Suc (Suc (Suc 0)))
       ['':double'', ''dup'', '':dump'', ''*'', '':end'', ''quad''] False
     \<lparr>stack = [[Num 3]],
      functions = [''quad'' \<mapsto> [''double'', ''double''], ''double'' \<mapsto> [''dup'', ''+'']],
      cerr = [], cout = []\<rparr>
   = Some (Inr \<lparr>stack = [[Num 81]],
      functions = [''quad'' \<mapsto> [''double'', ''double''], ''double'' \<mapsto> [''dup'', ''*'']],
      cerr = [], cout = [Line ''Stack:'', Printed [Num 3]]\<rparr>)"
proof -
  let ?st = "\<lparr>stack = [[Num 3]],
      functions = [''quad'' \<mapsto> [''double'', ''double''], ''double'' \<mapsto> [''dup'', ''+'']],
      cerr = [], cout = []\<rparr>"
  let ?st' = "\<lparr>stack = [[Num 3]],
      functions = [''quad'' \<mapsto> [''double'', ''double''], ''double'' \<mapsto> [''dup'', ''*'']],
      cerr = [], cout = [Line ''Stack:'', Printed [Num 3]]\<rparr>"
  note ev = evaluate_def builtIns_simps dup_def applyBinaryOp_def isScalar_def shapesEqual_def
    pick_def elemAt_def push_def thenRun_def
  have before: "evaluate (\<lambda>t. [Str t]) (powr) (Suc (Suc 0)) [''quad''] False ?st
      = Some (Inr (?st\<lparr>stack := [[Num 12]]\<rparr>))"
    by (simp add: ev)
  have after: "thenRun (evaluate (\<lambda>t. [Str t]) (powr) (Suc (Suc 0)) [] True ?st')
      (\<lambda>st1. thenRun (evaluate (\<lambda>t. [Str t]) (powr) (Suc 0) [''dup'', ''*''] True st1)
         (\<lambda>st2. evaluate (\<lambda>t. [Str t]) (powr) (Suc (Suc 0)) [''double''] True st2))
      = Some (Inr (?st'\<lparr>stack := [[Num 81]]\<rparr>))"
    by (simp add: ev)
  have name: "isFunctionName ''double''"
    by (simp add: isFunctionName_def iswalnum_def)
  have st': "?st' = ((dump ^^ length (filter (\<lambda>t. t = '':dump'') [''dup'', '':dump'', ''*''])) ?st)
           \<lparr>functions := (functions ?st)(''double'' \<mapsto> [''dup'', ''*''])\<rparr>"
    by (simp add: dump_def)
  from late_binding [where w = "''double''" and tokens = "[''dup'', '':dump'', ''*'']" and st = ?st
      and v = "''quad''" and pre = "[]" and post = "[''double'']" and body = "[''dup'', ''*'']"
      and st' = ?st' and parseArray = "\<lambda>t. [Str t]" and pow = "(powr)" and d = "Suc 0",
      OF name _ _ _ _ _ _ _ st']
  have "evaluate (\<lambda>t. [Str t]) (powr) (Suc (Suc (Suc 0)))
      ['':double'', ''dup'', '':dump'', ''*'', '':end'', ''quad''] False ?st
      = thenRun (evaluate (\<lambda>t. [Str t]) (powr) (Suc (Suc 0)) [] True ?st')
      (\<lambda>st1. thenRun (evaluate (\<lambda>t. [Str t]) (powr) (Suc 0) [''dup'', ''*''] True st1)
         (\<lambda>st2. evaluate (\<lambda>t. [Str t]) (powr) (Suc (Suc 0)) [''double''] True st2))"
    by simp
  with before after show ?thesis by simp
qed

end
